theory Spec2Isabelle
  imports Complex_Main "HOL-Library.Word" "HOL-Library.Sublist" "HOL-Library.Log_Nat"
    "HOL-Library.Multiset"
begin

chapter \<open>The model\<close>

section \<open>Strings of the host language\<close>

text \<open>
  A TypeScript string is a sequence of UTF-16 code units; \<open>length\<close>, \<open>slice\<close> and
  \<open>startsWith\<close> count and compare code units.  All glyphs the dashboard uses lie in the
  basic plane, one unit each.  \<open>ascii\<close> embeds an ASCII literal.
\<close>

type_synonym code_unit = "16 word"
type_synonym jsstring = "code_unit list"

definition ascii :: "string \<Rightarrow> jsstring" where
  "ascii s = map (\<lambda>c. of_nat (of_char c)) s"

text \<open>U+25CF BLACK CIRCLE, U+2716 HEAVY MULTIPLICATION X, U+2026 HORIZONTAL ELLIPSIS,
  U+2014 EM DASH, U+221E INFINITY.\<close>

definition BLACK_CIRCLE :: code_unit where "BLACK_CIRCLE = 0x25CF"
definition HEAVY_X :: code_unit where "HEAVY_X = 0x2716"
definition ELLIPSIS :: code_unit where "ELLIPSIS = 0x2026"
definition EM_DASH :: code_unit where "EM_DASH = 0x2014"
definition INFINITY_SIGN :: code_unit where "INFINITY_SIGN = 0x221E"

text \<open>\<open>s.startsWith(p)\<close>.\<close>

definition startsWith :: "jsstring \<Rightarrow> jsstring \<Rightarrow> bool" where
  "startsWith s p = prefix p s"

text \<open>
  \<open>xs.slice(0, end)\<close>, of a string and of an array alike: a negative \<open>end\<close> counts from
  the back, and both ends are clamped to the length.
\<close>

definition slice0 :: "'a list \<Rightarrow> int \<Rightarrow> 'a list" where
  "slice0 xs e = take (nat (if e < 0 then max (int (length xs) + e) 0 else min e (int (length xs)))) xs"

text \<open>
  \<open>s.replace(pat, rep)\<close> with a string pattern replaces the first occurrence only (the
  replacement text used here has no \<open>$\<close> pattern).
\<close>

fun replace_first :: "jsstring \<Rightarrow> jsstring \<Rightarrow> jsstring \<Rightarrow> jsstring" where
  "replace_first pat rep [] = (if pat = [] then rep else [])"
| "replace_first pat rep (c # cs) =
     (if prefix pat (c # cs) then rep @ drop (length pat) (c # cs)
      else c # replace_first pat rep cs)"

text \<open>
  White space and line terminators of ECMAScript (\<open>StrWhiteSpaceChar\<close>): TAB, LF, VT, FF,
  CR, SP, NBSP, the other space separators of Unicode, LS, PS and the byte order mark.
  \<open>trim\<close> removes them from both ends.
\<close>

definition StrWhiteSpaceChar :: "code_unit \<Rightarrow> bool" where
  "StrWhiteSpaceChar c =
     (c \<in> {0x9, 0xA, 0xB, 0xC, 0xD, 0x20, 0xA0, 0x1680, 0x2028, 0x2029, 0x202F, 0x205F, 0x3000, 0xFEFF}
      \<or> (0x2000 \<le> c \<and> c \<le> 0x200A))"

definition trim :: "jsstring \<Rightarrow> jsstring" where
  "trim s = rev (dropWhile StrWhiteSpaceChar (rev (dropWhile StrWhiteSpaceChar s)))"

text \<open>A field that may be missing: \<open>T | null | undefined\<close>.  Of a string such a
  field is truthy when it is a string and not the empty one.\<close>

datatype 'a nullable = Undefined | Null | Val 'a

fun truthy_string :: "jsstring nullable \<Rightarrow> bool" where
  "truthy_string (Val s) = (s \<noteq> [])"
| "truthy_string _ = False"

section \<open>Numbers of the host language\<close>

text \<open>
  A TypeScript number is an IEEE 754 binary64 value: not-a-number, the two infinities,
  the two zeros, and the finite non-zero values \<open>m \<times> 2\<^sup>e\<close> with \<open>|m| < 2\<^sup>5\<^sup>3\<close> and
  \<open>-1074 \<le> e \<le> 971\<close>.  \<open>Fin q\<close> carries the value as a rational (\<open>Fin 0\<close> being \<open>+0\<close>);
  the arithmetic below rounds every result to binary64, so it yields representable values
  only.  A statement about every \<open>Fin q\<close> holds for the representable ones in particular.
\<close>

datatype jsnum = NaN | PosInf | NegInf | NegZero | Fin rat

definition pow2 :: "int \<Rightarrow> rat" where
  "pow2 e = 2 powi e"

definition pow10 :: "int \<Rightarrow> rat" where
  "pow10 e = 10 powi e"

text \<open>\<open>\<lfloor>log\<^sub>2 q\<rfloor>\<close> of a positive rational, from the bit lengths of its numerator and
  denominator.\<close>

definition ilog2 :: "rat \<Rightarrow> int" where
  "ilog2 q = (let (a, b) = quotient_of q; k = bitlen a - bitlen b
              in if pow2 k \<le> q then k else k - 1)"

text \<open>Rounding to the nearest integer, a tie to the even one.\<close>

definition round_half_even :: "rat \<Rightarrow> int" where
  "round_half_even r = (let f = \<lfloor>r\<rfloor>; d = r - of_int f
     in if d < 1 / 2 then f else if 1 / 2 < d then f + 1 else if even f then f else f + 1)"

text \<open>
  The exponent of the unit in the last place of the binary64 values near \<open>q\<close>, and the
  rounding of a magnitude \<open>q \<ge> 0\<close> to binary64 (round to nearest, ties to even); \<open>None\<close>
  is overflow to infinity.
\<close>

definition ulp_exp :: "rat \<Rightarrow> int" where
  "ulp_exp q = max (ilog2 q - 52) (- 1074)"

definition fl_mag :: "rat \<Rightarrow> rat option" where
  "fl_mag q = (if q = 0 then Some 0 else
     let v = of_int (round_half_even (q / pow2 (ulp_exp q))) * pow2 (ulp_exp q)
     in if pow2 1024 \<le> v then None else Some v)"

definition with_sign :: "bool \<Rightarrow> rat option \<Rightarrow> jsnum" where
  "with_sign neg m = (case m of
      None \<Rightarrow> (if neg then NegInf else PosInf)
    | Some v \<Rightarrow> (if v = 0 then (if neg then NegZero else Fin 0) else Fin (if neg then - v else v)))"

text \<open>The number a decimal literal of value \<open>q\<close> denotes, as \<open>0.0423\<close> in the source or
  \<open>1e306\<close> in a JSON text.\<close>

definition lit :: "rat \<Rightarrow> jsnum" where
  "lit q = with_sign (q < 0) (fl_mag \<bar>q\<bar>)"

fun is_finite :: "jsnum \<Rightarrow> bool" where
  "is_finite (Fin q) = True"
| "is_finite NegZero = True"
| "is_finite _ = False"

fun is_infinite :: "jsnum \<Rightarrow> bool" where
  "is_infinite PosInf = True"
| "is_infinite NegInf = True"
| "is_infinite _ = False"

fun sign_bit :: "jsnum \<Rightarrow> bool" where
  "sign_bit NegInf = True"
| "sign_bit NegZero = True"
| "sign_bit (Fin q) = (q < 0)"
| "sign_bit _ = False"

text \<open>The mathematical value of a finite number (both zeros are 0).\<close>

fun mathval :: "jsnum \<Rightarrow> rat" where
  "mathval (Fin q) = q"
| "mathval _ = 0"

text \<open>\<open>x * y\<close>: the sign of the result is the exclusive or of the signs, an infinity
  times a zero is not a number, and a finite product is rounded.\<close>

definition js_mul :: "jsnum \<Rightarrow> jsnum \<Rightarrow> jsnum" where
  "js_mul x y =
     (if x = NaN \<or> y = NaN then NaN
      else if is_infinite x \<or> is_infinite y
        then (if (is_finite x \<and> mathval x = 0) \<or> (is_finite y \<and> mathval y = 0) then NaN
              else if sign_bit x \<noteq> sign_bit y then NegInf else PosInf)
      else with_sign (sign_bit x \<noteq> sign_bit y) (fl_mag (\<bar>mathval x\<bar> * \<bar>mathval y\<bar>)))"

text \<open>\<open>x < y\<close> and \<open>x <= y\<close>: false as soon as one side is not a number; the zeros are
  equal.\<close>

definition js_lt :: "jsnum \<Rightarrow> jsnum \<Rightarrow> bool" where
  "js_lt x y = (x \<noteq> NaN \<and> y \<noteq> NaN \<and> x \<noteq> PosInf \<and> y \<noteq> NegInf \<and>
     (x = NegInf \<or> y = PosInf \<or> mathval x < mathval y))"

definition js_le :: "jsnum \<Rightarrow> jsnum \<Rightarrow> bool" where
  "js_le x y = (x \<noteq> NaN \<and> y \<noteq> NaN \<and> \<not> js_lt y x)"

text \<open>\<open>Math.max(x, y)\<close>: not a number as soon as one argument is; \<open>+0\<close> is larger than
  \<open>-0\<close>.\<close>

definition Math_max :: "jsnum \<Rightarrow> jsnum \<Rightarrow> jsnum" where
  "Math_max x y =
     (if x = NaN \<or> y = NaN then NaN
      else if js_lt x y then y
      else if js_lt y x then x
      else if x = NegZero then y else x)"

text \<open>\<open>Math.round(x)\<close>: the nearest integer, a tie upwards; \<open>-0\<close> for \<open>-0\<close> and for
  \<open>-0.5 \<le> x < 0\<close>.\<close>

fun Math_round :: "jsnum \<Rightarrow> jsnum" where
  "Math_round (Fin q) = (if q < 0 \<and> - 1 / 2 \<le> q then NegZero else Fin (of_int \<lfloor>q + 1 / 2\<rfloor>))"
| "Math_round x = x"

subsection \<open>Numbers to strings\<close>

definition digit_char :: "nat \<Rightarrow> code_unit" where
  "digit_char d = of_nat (48 + d)"

text \<open>The decimal digits of a natural number; of a status code or an index this is what a
  template literal produces.\<close>

fun digits :: "nat \<Rightarrow> jsstring" where
  "digits n = (if n < 10 then [digit_char n] else digits (n div 10) @ [digit_char (n mod 10)])"

declare digits.simps [simp del]

definition ilog10 :: "rat \<Rightarrow> int" where
  "ilog10 q = (let (a, b) = quotient_of q;
                   k = int (length (digits (nat a))) - int (length (digits (nat b)))
               in if pow10 k \<le> q then k else k - 1)"

text \<open>
  \<open>Number::toString\<close>: with \<open>k\<close> as small as possible, the integer \<open>s\<close> of \<open>k\<close> digits and the
  exponent \<open>n\<close> for which \<open>s \<times> 10\<^sup>n\<^sup>-\<^sup>k\<close> rounds to \<open>x\<close>, the closest to \<open>x\<close> when two do.
  Seventeen digits are enough for a binary64 value.
\<close>

definition shortest :: "rat \<Rightarrow> int \<times> int" where
  "shortest x =
     (let n = ilog10 x + 1;
          cands = concat (map (\<lambda>k. let t = x * pow10 (k - n); lo = \<lfloor>t\<rfloor>
                                     in if t - of_int lo < 1 / 2 \<or> (t - of_int lo = 1 / 2 \<and> even lo)
                                        then [(k, lo), (k, lo + 1)] else [(k, lo + 1), (k, lo)]) [1..17]);
          ok = filter (\<lambda>(k, s). fl_mag (of_int s * pow10 (n - k)) = Some x) cands
      in case ok of
           [] \<Rightarrow> (\<lfloor>x * pow10 (17 - n) + 1 / 2\<rfloor>, n)
         | (k, s) # _ \<Rightarrow> if s = 10 ^ nat k then (1, n + 1) else (s, n))"

definition Number_toString :: "jsnum \<Rightarrow> jsstring" where
  "Number_toString x = (case x of
       NaN \<Rightarrow> ascii ''NaN''
     | PosInf \<Rightarrow> ascii ''Infinity''
     | NegInf \<Rightarrow> ascii ''-Infinity''
     | NegZero \<Rightarrow> ascii ''0''
     | Fin q \<Rightarrow>
         if q = 0 then ascii ''0''
         else let (s, n) = shortest \<bar>q\<bar>; ds = digits (nat s); k = int (length ds);
                  body =
                    (if k \<le> n \<and> n \<le> 21 then ds @ replicate (nat (n - k)) (digit_char 0)
                     else if 0 < n \<and> n \<le> 21 then take (nat n) ds @ ascii ''.'' @ drop (nat n) ds
                     else if - 6 < n \<and> n \<le> 0 then ascii ''0.'' @ replicate (nat (- n)) (digit_char 0) @ ds
                     else (if k = 1 then ds else take 1 ds @ ascii ''.'' @ drop 1 ds)
                          @ ascii ''e'' @ (if 0 \<le> n - 1 then ascii ''+'' else ascii ''-'')
                          @ digits (nat \<bar>n - 1\<bar>))
              in (if q < 0 then ascii ''-'' else []) @ body)"

text \<open>
  \<open>x.toFixed(f)\<close>: of a magnitude below \<open>10\<^sup>2\<^sup>1\<close> the integer \<open>n\<close> nearest to \<open>x \<times> 10\<^sup>f\<close>
  (the larger one of two), written with \<open>f\<close> digits after the point: \<open>insert_point\<close> pads
  the digits with zeros to \<open>f + 1\<close> at least and puts the point before the last \<open>f\<close>.
\<close>

definition insert_point :: "nat \<Rightarrow> jsstring \<Rightarrow> jsstring" where
  "insert_point f m =
     (let z = replicate (f + 1 - length m) (digit_char 0) @ m; k = length z
      in take (k - f) z @ ascii ''.'' @ drop (k - f) z)"

definition toFixed :: "nat \<Rightarrow> jsnum \<Rightarrow> jsstring" where
  "toFixed f x =
     (if \<not> is_finite x then Number_toString x
      else let s = (if mathval x < 0 then ascii ''-'' else []); a = \<bar>mathval x\<bar>
           in if 10 ^ 21 \<le> a then s @ Number_toString (Fin a)
              else let m = digits (nat \<lfloor>a * 10 ^ f + 1 / 2\<rfloor>)
                   in if f = 0 then s @ m else s @ insert_point f m)"

text \<open>Thousands grouping as the specification words it, to compare the formatter with: a
  comma before every group of three digits, counted from the right.\<close>

fun group3 :: "jsstring \<Rightarrow> jsstring" where
  "group3 ds = (if length ds \<le> 3 then ds
                else group3 (take (length ds - 3) ds) @ ascii '','' @ drop (length ds - 3) ds)"

declare group3.simps [simp del]

definition strip_zeros :: "jsstring \<Rightarrow> jsstring" where
  "strip_zeros ds = rev (dropWhile (\<lambda>c. c = digit_char 0) (rev ds))"

text \<open>
  \<open>x.toLocaleString()\<close> formats \<open>x\<close> with \<open>Intl.NumberFormat\<close> for the default locale of the
  host, which the source does not choose.  What a locale decides of a plain number is
  collected in \<open>host_locale\<close>: the glyphs of the ten digits, the separators of groups and of
  the fraction, the minus sign, the size of the rightmost group and of the groups to its
  left, how many digits must stand before the first separator for any to be written, and
  the texts for not-a-number and infinity.
\<close>

record host_locale =
  digit_glyphs :: "jsstring list"
  group_separator :: jsstring
  decimal_separator :: jsstring
  minus_sign :: jsstring
  primary_group :: nat
  secondary_group :: nat
  minimum_grouping_digits :: nat
  nan_symbol :: jsstring
  infinity_symbol :: jsstring

definition glyph :: "host_locale \<Rightarrow> code_unit \<Rightarrow> jsstring" where
  "glyph loc c = digit_glyphs loc ! (unat c - 48)"

text \<open>
  The separator goes before the rightmost \<open>g\<close> digits, then before every further \<open>g2\<close>,
  as long as a digit remains to its left.
\<close>

function group_from :: "nat \<Rightarrow> nat \<Rightarrow> jsstring \<Rightarrow> jsstring list \<Rightarrow> jsstring" where
  "group_from g g2 sep ds =
     (if g = 0 \<or> length ds \<le> g then concat ds
      else group_from g2 g2 sep (take (length ds - g) ds) @ sep @ concat (drop (length ds - g) ds))"
  by pat_completeness auto
termination
  by (relation "measure (\<lambda>(g, g2, sep, ds). length ds)") auto

declare group_from.simps [simp del]

definition group_digits :: "host_locale \<Rightarrow> jsstring list \<Rightarrow> jsstring" where
  "group_digits loc ds =
     (if minimum_grouping_digits loc + primary_group loc \<le> length ds
      then group_from (primary_group loc) (secondary_group loc) (group_separator loc) ds
      else concat ds)"

text \<open>
  The decimal that is formatted, of a magnitude \<open>a\<close>.  The formatter behind \<open>Intl\<close> takes an
  integer below \<open>2\<^sup>5\<^sup>3\<close> digit for digit, and of any other number the shortest digits that
  read back as the same binary64 value (those of \<open>Number::toString\<close>), so that a larger
  integer is printed with zeros after its seventeenth digit at the latest.
\<close>

definition formatted_decimal :: "rat \<Rightarrow> rat" where
  "formatted_decimal a =
     (if of_int \<lfloor>a\<rfloor> = a \<and> a < 2 ^ 53 then a
      else let (s, n) = shortest a in of_int s * pow10 (n - int (length (digits (nat s)))))"

text \<open>
  With the defaults of \<open>Intl.NumberFormat\<close>: at most three fraction digits, rounded half
  away from zero, no trailing zeros, and the minus sign for every negative value, \<open>-0\<close>
  included.
\<close>

definition toLocaleString :: "host_locale \<Rightarrow> jsnum \<Rightarrow> jsstring" where
  "toLocaleString loc x = (case x of
       NaN \<Rightarrow> nan_symbol loc
     | PosInf \<Rightarrow> infinity_symbol loc
     | NegInf \<Rightarrow> minus_sign loc @ infinity_symbol loc
     | _ \<Rightarrow>
         let n = nat \<lfloor>formatted_decimal \<bar>mathval x\<bar> * 1000 + 1 / 2\<rfloor>;
             frac = strip_zeros (drop 1 (digits (1000 + n mod 1000)))
         in (if sign_bit x then minus_sign loc else [])
            @ group_digits loc (map (glyph loc) (digits (n div 1000)))
            @ (if frac = [] then [] else decimal_separator loc @ concat (map (glyph loc) frac)))"

text \<open>The locales \<open>en-US\<close> and \<open>de-DE\<close>.\<close>

definition en_US :: host_locale where
  "en_US = \<lparr> digit_glyphs = map (\<lambda>c. [c]) (ascii ''0123456789''),
     group_separator = ascii '','', decimal_separator = ascii ''.'', minus_sign = ascii ''-'',
     primary_group = 3, secondary_group = 3, minimum_grouping_digits = 1,
     nan_symbol = ascii ''NaN'', infinity_symbol = [INFINITY_SIGN] \<rparr>"

definition de_DE :: host_locale where
  "de_DE = \<lparr> digit_glyphs = map (\<lambda>c. [c]) (ascii ''0123456789''),
     group_separator = ascii ''.'', decimal_separator = ascii '','', minus_sign = ascii ''-'',
     primary_group = 3, secondary_group = 3, minimum_grouping_digits = 1,
     nan_symbol = ascii ''NaN'', infinity_symbol = [INFINITY_SIGN] \<rparr>"

subsection \<open>Strings to numbers\<close>

text \<open>
  \<open>Number(s)\<close> of a string (\<open>StringToNumber\<close>): the trimmed text is empty (\<open>+0\<close>), a binary,
  octal or hexadecimal integer literal, or an optionally signed \<open>Infinity\<close> or decimal
  literal with optional fraction and exponent; any other text is not a number.
  \<open>decimal_value\<close> reads a run of decimal digits, \<open>digits_value\<close> a whole text in a radix.
\<close>

definition is_digit :: "code_unit \<Rightarrow> bool" where
  "is_digit c = (0x30 \<le> c \<and> c \<le> 0x39)"

definition digit_in :: "nat \<Rightarrow> code_unit \<Rightarrow> nat option" where
  "digit_in radix c =
     (let d = (if 0x30 \<le> c \<and> c \<le> 0x39 then Some (unat c - 48)
               else if 0x61 \<le> c \<and> c \<le> 0x66 then Some (unat c - 87)
               else if 0x41 \<le> c \<and> c \<le> 0x46 then Some (unat c - 55)
               else None)
      in case d of None \<Rightarrow> None | Some v \<Rightarrow> if v < radix then Some v else None)"

definition decimal_value :: "jsstring \<Rightarrow> nat" where
  "decimal_value ds = foldl (\<lambda>n c. 10 * n + (unat c - 48)) 0 ds"

definition digits_value :: "nat \<Rightarrow> jsstring \<Rightarrow> nat option" where
  "digits_value radix ds =
     (if ds = [] then None
      else foldl (\<lambda>acc c. case (acc, digit_in radix c) of
                             (Some n, Some d) \<Rightarrow> Some (radix * n + d)
                           | _ \<Rightarrow> None) (Some 0) ds)"

definition NonDecimalIntegerLiteral :: "jsstring \<Rightarrow> nat option" where
  "NonDecimalIntegerLiteral s =
     (if startsWith s (ascii ''0x'') \<or> startsWith s (ascii ''0X'') then digits_value 16 (drop 2 s)
      else if startsWith s (ascii ''0o'') \<or> startsWith s (ascii ''0O'') then digits_value 8 (drop 2 s)
      else if startsWith s (ascii ''0b'') \<or> startsWith s (ascii ''0B'') then digits_value 2 (drop 2 s)
      else None)"

text \<open>The outer \<open>None\<close> is a text that is no literal; \<open>Some None\<close> is \<open>Infinity\<close>.\<close>

definition StrUnsignedDecimalLiteral :: "jsstring \<Rightarrow> rat option option" where
  "StrUnsignedDecimalLiteral s =
     (if s = ascii ''Infinity'' then Some None
      else
        let ip = takeWhile is_digit s; r1 = dropWhile is_digit s;
            dot = startsWith r1 (ascii ''.'');
            fp = (if dot then takeWhile is_digit (tl r1) else []);
            r2 = (if dot then dropWhile is_digit (tl r1) else r1);
            mant = of_nat (decimal_value ip) + of_nat (decimal_value fp) / 10 ^ length fp
        in if ip = [] \<and> fp = [] then None
           else if r2 = [] then Some (Some mant)
           else if startsWith r2 (ascii ''e'') \<or> startsWith r2 (ascii ''E'') then
             let r3 = tl r2;
                 neg = startsWith r3 (ascii ''-'');
                 r4 = (if neg \<or> startsWith r3 (ascii ''+'') then tl r3 else r3)
             in if r4 \<noteq> [] \<and> list_all is_digit r4
                then Some (Some (mant * pow10 (if neg then - int (decimal_value r4) else int (decimal_value r4))))
                else None
           else None)"

definition StringToNumber :: "jsstring \<Rightarrow> jsnum" where
  "StringToNumber str =
     (let s = trim str in
      if s = [] then Fin 0
      else (case NonDecimalIntegerLiteral s of
              Some n \<Rightarrow> lit (of_nat n)
            | None \<Rightarrow>
                (let neg = startsWith s (ascii ''-'');
                     body = (if neg \<or> startsWith s (ascii ''+'') then tl s else s)
                 in (case StrUnsignedDecimalLiteral body of
                       None \<Rightarrow> NaN
                     | Some None \<Rightarrow> with_sign neg None
                     | Some (Some q) \<Rightarrow> with_sign neg (fl_mag q)))))"

section \<open>types.ts\<close>

datatype PeerState = offline | unreachable | joining | online

text \<open>The string a \<open>PeerState\<close> is at run time (the type is a union of string literals).\<close>

fun PeerState_str :: "PeerState \<Rightarrow> jsstring" where
  "PeerState_str offline = ascii ''offline''"
| "PeerState_str unreachable = ascii ''unreachable''"
| "PeerState_str joining = ascii ''joining''"
| "PeerState_str online = ascii ''online''"

text \<open>
  \<open>ServerInfo\<close>, \<open>SpanInfo\<close> and \<open>ServerRow\<close>, with the fields the modelled functions read.
  \<open>span_start\<close> and \<open>span_end\<close> are the fields \<open>start\<close> and \<open>end\<close>; block indices are integers.
\<close>

record ServerInfo =
  public_name :: "jsstring nullable"
  version :: "jsstring nullable"
  throughput :: "jsnum nullable"
  inference_rps :: "jsnum nullable"
  forward_rps :: "jsnum nullable"
  network_rps :: "jsnum nullable"
  torch_dtype :: "jsstring nullable"
  quant_type :: "jsstring nullable"
  using_relay :: "bool nullable"

record SpanInfo =
  span_start :: int
  span_end :: int
  server_info :: ServerInfo

record ServerRow =
  peer_id :: jsstring
  show_public_name :: bool
  state :: PeerState
  span :: SpanInfo
  pings_to_me :: "(jsstring \<times> jsnum) list"

text \<open>
  \<open>Record<string, number>\<close> is read through \<open>Object.entries\<close> only, so such an object is
  modelled as the list of its entries in the order \<open>Object.entries\<close> enumerates them.
  Block counts are integers, for which the comparator's \<open>b - a\<close> is exact.
\<close>

type_synonym ContributorEntry = "jsstring \<times> int"

section \<open>api/health.ts\<close>

text \<open>
  A value at run time.  The payload is the result of \<open>response.json()\<close> under a type
  assertion, which checks nothing: the JSON text decides what every field is.  An object
  is the list of its own properties, each key once; an array is the list of its elements.
\<close>

datatype jsvalue = VUndefined | VNull | VBool bool | VNum jsnum | VStr jsstring
  | VArray "jsvalue list" | VObject "(jsstring \<times> jsvalue) list"

text \<open>
  \<open>v.k\<close> for a key \<open>k\<close> that no prototype of a parsed value defines, as \<open>last_updated\<close> and
  \<open>update_period\<close>: the own property of an object, \<open>undefined\<close> otherwise.
\<close>

definition Get :: "jsvalue \<Rightarrow> jsstring \<Rightarrow> jsvalue" where
  "Get v k = (case v of
       VObject props \<Rightarrow> (case map_of props k of Some x \<Rightarrow> x | None \<Rightarrow> VUndefined)
     | _ \<Rightarrow> VUndefined)"

text \<open>The own enumerable properties that \<open>{ ...v }\<close> copies: those of an object, the
  elements of an array and the code units of a string under their indices, none of
  any other value.\<close>

definition own_properties :: "jsvalue \<Rightarrow> (jsstring \<times> jsvalue) list" where
  "own_properties v = (case v of
       VObject props \<Rightarrow> props
     | VArray xs \<Rightarrow> zip (map digits [0..<length xs]) xs
     | VStr s \<Rightarrow> zip (map digits [0..<length s]) (map (\<lambda>c. VStr [c]) s)
     | _ \<Rightarrow> [])"

text \<open>
  \<open>ToString\<close> and \<open>ToNumber\<close>, which \<open>*\<close> applies to an operand.  An array is converted
  by \<open>join\<close>: its elements converted and separated by commas, \<open>null\<close> and \<open>undefined\<close> as
  the empty text.  A parsed object is converted by \<open>Object.prototype.toString\<close>, unless
  it has an own property \<open>toString\<close>, which hides that method and is not callable: then
  the conversion throws a \<open>TypeError\<close> (\<open>None\<close>).
\<close>

fun join_comma :: "jsstring option list \<Rightarrow> jsstring option" where
  "join_comma [] = Some []"
| "join_comma [x] = x"
| "join_comma (x # y # ys) =
     (case (x, join_comma (y # ys)) of (Some a, Some b) \<Rightarrow> Some (a @ ascii '','' @ b) | _ \<Rightarrow> None)"

fun ToString :: "jsvalue \<Rightarrow> jsstring option" where
  "ToString VUndefined = Some (ascii ''undefined'')"
| "ToString VNull = Some (ascii ''null'')"
| "ToString (VBool b) = Some (if b then ascii ''true'' else ascii ''false'')"
| "ToString (VNum n) = Some (Number_toString n)"
| "ToString (VStr s) = Some s"
| "ToString (VArray xs) =
     join_comma (map (\<lambda>x. if x = VUndefined \<or> x = VNull then Some [] else ToString x) xs)"
| "ToString (VObject props) =
     (if map_of props (ascii ''toString'') = None then Some (ascii ''[object Object]'') else None)"

definition ToNumber :: "jsvalue \<Rightarrow> jsnum option" where
  "ToNumber v = (case v of
       VUndefined \<Rightarrow> Some NaN
     | VNull \<Rightarrow> Some (Fin 0)
     | VBool b \<Rightarrow> Some (Fin (if b then 1 else 0))
     | VNum n \<Rightarrow> Some n
     | VStr s \<Rightarrow> Some (StringToNumber s)
     | _ \<Rightarrow> map_option StringToNumber (ToString v))"

text \<open>
  \<^verbatim>\<open>const normalizeTimestamp = (timestamp: number | string): number => {\<close>
  \<^verbatim>\<open>  const value = typeof timestamp === 'string' ? Number(timestamp) : timestamp\<close>
  \<^verbatim>\<open>  if (Number.isFinite(value)) { return value * 1000 }\<close>
  \<^verbatim>\<open>  return Date.now() }\<close>

  \<open>Number.isFinite\<close> holds of finite numbers only, of no other kind of value.  \<open>Date.now()\<close>
  is an integral number of milliseconds, the parameter \<open>now\<close>.
\<close>

definition normalizeTimestamp :: "int \<Rightarrow> jsvalue \<Rightarrow> jsnum" where
  "normalizeTimestamp now timestamp =
     (let v = (case timestamp of VStr s \<Rightarrow> VNum (StringToNumber s) | _ \<Rightarrow> timestamp)
      in case v of
           VNum n \<Rightarrow> if is_finite n then js_mul n (Fin 1000) else Fin (of_int now)
         | _ \<Rightarrow> Fin (of_int now))"

text \<open>
  What \<open>fetch\<close> resolves to: the status code, what \<open>response.text()\<close> resolves to (\<open>None\<close>
  when it rejects) and what \<open>response.json()\<close> resolves to (\<open>None\<close> when the body is not a
  JSON text and it rejects).
\<close>

record Response =
  status :: nat
  body_text :: "jsstring option"
  body_json :: "jsvalue option"

definition ok :: "Response \<Rightarrow> bool" where
  "ok response = (200 \<le> status response \<and> status response \<le> 299)"

text \<open>What \<open>fetchHealthState\<close> throws: the \<open>Error\<close> it makes itself, or what \<open>fetch\<close>,
  \<open>response.json()\<close> or a property read of \<open>null\<close> threw.\<close>

datatype failure = Error jsstring | FetchRejected | JsonRejected | TypeError

text \<open>
  \<^verbatim>\<open>try { return await response.text() } catch { return undefined }\<close>
\<close>

definition safeReadText :: "Response \<Rightarrow> jsstring nullable" where
  "safeReadText response = (case body_text response of Some t \<Rightarrow> Val t | None \<Rightarrow> Undefined)"

text \<open>
  \<open>HealthState\<close> as \<open>fetchHealthState\<close> returns it: the object \<^verbatim>\<open>{ ...payload, last_updated: n }\<close>,
  where \<open>n\<close> is a number whatever the payload holds, and \<open>others\<close> are the properties copied
  from the payload, as they came.  \<open>update_period d\<close> is \<open>d.update_period\<close>, \<open>undefined\<close> when the
  payload had no such property.
\<close>

record HealthState =
  last_updated :: jsnum
  others :: "(jsstring \<times> jsvalue) list"

definition update_period :: "HealthState \<Rightarrow> jsvalue" where
  "update_period d = (case map_of (others d) (ascii ''update_period'') of Some x \<Rightarrow> x | None \<Rightarrow> VUndefined)"

text \<open>
  \<^verbatim>\<open>if (!response.ok) {\<close>
  \<^verbatim>\<open>  const message = await safeReadText(response)\<close>
  \<^verbatim>\<open>  throw new Error(message || `Request failed with status ${response.status}`) }\<close>
  \<^verbatim>\<open>const payload = (await response.json()) as HealthState\<close>
  \<^verbatim>\<open>return { ...payload, last_updated: normalizeTimestamp(payload.last_updated) }\<close>

  The first argument is \<open>Date.now()\<close>, the second what \<open>fetch\<close> did (\<open>None\<close>: it rejected).
  Reading \<open>payload.last_updated\<close> throws a \<open>TypeError\<close> when the payload is \<open>null\<close>; of a
  number, a boolean, a string or an array it is \<open>undefined\<close>.
\<close>

definition fetchHealthState :: "int \<Rightarrow> Response option \<Rightarrow> failure + HealthState" where
  "fetchHealthState now fetched =
     (case fetched of
        None \<Rightarrow> Inl FetchRejected
      | Some response \<Rightarrow>
          (if \<not> ok response then
             (let message = safeReadText response
              in Inl (Error (if truthy_string message then (case message of Val m \<Rightarrow> m | _ \<Rightarrow> [])
                             else ascii ''Request failed with status '' @ digits (status response))))
           else
             (case body_json response of
                None \<Rightarrow> Inl JsonRejected
              | Some payload \<Rightarrow>
                  (if payload = VNull \<or> payload = VUndefined then Inl TypeError
                   else Inr \<lparr> last_updated = normalizeTimestamp now (Get payload (ascii ''last_updated'')),
                              others = filter (\<lambda>p. fst p \<noteq> ascii ''last_updated'')
                                         (own_properties payload) \<rparr>))))"

section \<open>App.tsx\<close>

text \<open>
  Two files define \<open>App\<close>: \<open>src/frontend/health-ui/src/App.tsx\<close> (the plain variant) and
  \<open>src/unnamed/part_000\<close> (the card variant, whose names carry the suffix \<open>_rich\<close> here).
\<close>

subsection \<open>The poll interval\<close>

text \<open>
  \<^verbatim>\<open>refetchInterval: (query) => {\<close>
  \<^verbatim>\<open>  const seconds = query.state.data?.update_period ?? 60\<close>
  \<^verbatim>\<open>  return Math.max(seconds * 1000, 30_000) }\<close>

  \<open>query.state.data\<close> is the result of the last successful fetch, \<open>undefined\<close> (\<open>None\<close>) before
  the first.  \<open>??\<close> replaces \<open>undefined\<close> and \<open>null\<close> only; \<open>*\<close> converts its operand to a
  number, which throws of an object that cannot be converted.
\<close>

definition refetchInterval :: "HealthState option \<Rightarrow> failure + jsnum" where
  "refetchInterval data =
     (let field = (case data of None \<Rightarrow> VUndefined | Some d \<Rightarrow> update_period d);
          seconds = (if field = VUndefined \<or> field = VNull then VNum (Fin 60) else field)
      in case ToNumber seconds of
           None \<Rightarrow> Inl TypeError
         | Some n \<Rightarrow> Inr (Math_max (js_mul n (Fin 1000)) (Fin 30000)))"

definition refetchInterval_rich :: "HealthState option \<Rightarrow> failure + jsnum" where
  "refetchInterval_rich data =
     (let field = (case data of None \<Rightarrow> VUndefined | Some d \<Rightarrow> update_period d);
          seconds = (if field = VUndefined \<or> field = VNull then VNum (Fin 60) else field)
      in case ToNumber seconds of
           None \<Rightarrow> Inl TypeError
         | Some n \<Rightarrow> Inr (Math_max (js_mul n (Fin 1000)) (Fin 30000)))"

subsection \<open>The block map of a server row\<close>

fun STATE_CHARS :: "PeerState \<Rightarrow> jsstring" where
  "STATE_CHARS offline = ascii ''_''"
| "STATE_CHARS unreachable = [HEAVY_X]"
| "STATE_CHARS joining = [BLACK_CIRCLE]"
| "STATE_CHARS online = [BLACK_CIRCLE]"

text \<open>A rendered table cell: its class attribute and its text.\<close>

record cell =
  className :: jsstring
  content :: jsstring

text \<open>
  \<^verbatim>\<open>Array.from({ length: numBlocks }, (_, idx) => {\<close>
  \<^verbatim>\<open>  const inRange = idx >= row.span.start && idx < row.span.end\<close>
  \<^verbatim>\<open>  return <td className={`bm${inRange ? ` ${row.state}` : ''}`}>\<close>
  \<^verbatim>\<open>           {inRange ? STATE_CHARS[row.state] : ''}</td> })\<close>

  \<open>idx\<close> runs over \<open>0, ..., numBlocks - 1\<close>, and over nothing when \<open>numBlocks\<close> is not positive.
\<close>

definition inRange :: "ServerRow \<Rightarrow> int \<Rightarrow> bool" where
  "inRange row idx = (idx \<ge> span_start (span row) \<and> idx < span_end (span row))"

definition block_cell :: "ServerRow \<Rightarrow> int \<Rightarrow> cell" where
  "block_cell row idx =
     \<lparr> className = ascii ''bm'' @ (if inRange row idx then ascii '' '' @ PeerState_str (state row) else []),
       content = (if inRange row idx then STATE_CHARS (state row) else []) \<rparr>"

definition block_cells :: "ServerRow \<Rightarrow> int \<Rightarrow> cell list" where
  "block_cells row numBlocks = map (\<lambda>i. block_cell row (int i)) [0..<nat numBlocks]"

text \<open>
  The card variant builds the class attribute with \<open>cn\<close> of \<open>@/lib/utils\<close>, which is not
  among the sources and is taken as a parameter; an argument of \<open>cn\<close> is a string or
  \<open>false\<close>.
\<close>

datatype class_value = CFalse | CStr jsstring

definition cand :: "bool \<Rightarrow> string \<Rightarrow> class_value" where
  "cand b s = (if b then CStr (ascii s) else CFalse)"

definition block_cell_rich :: "(class_value list \<Rightarrow> jsstring) \<Rightarrow> ServerRow \<Rightarrow> int \<Rightarrow> cell" where
  "block_cell_rich cn row idx =
     \<lparr> className = cn
         [CStr (ascii ''p-1 text-center font-mono text-xs''),
          (if inRange row idx
           then CStr (cn
             [CStr (ascii ''rounded-sm border border-transparent''),
              cand (state row = online) ''bg-emerald-500/15 text-emerald-600'',
              cand (state row = joining) ''bg-amber-500/15 text-amber-600'',
              cand (state row = unreachable) ''bg-rose-500/15 text-rose-600'',
              cand (state row = offline) ''bg-slate-500/10 text-slate-500''])
           else CStr (ascii ''text-muted-foreground''))],
       content = (if inRange row idx then STATE_CHARS (state row) else []) \<rparr>"

definition block_cells_rich :: "(class_value list \<Rightarrow> jsstring) \<Rightarrow> ServerRow \<Rightarrow> int \<Rightarrow> cell list" where
  "block_cells_rich cn row numBlocks = map (\<lambda>i. block_cell_rich cn row (int i)) [0..<nat numBlocks]"

text \<open>The indices of the cells that show something.\<close>

definition covered :: "cell list \<Rightarrow> nat list" where
  "covered cs = filter (\<lambda>i. content (cs ! i) \<noteq> []) [0..<length cs]"

subsection \<open>The contributor ranking\<close>

definition MAX_CONTRIBUTORS :: int where
  "MAX_CONTRIBUTORS = 5"

text \<open>
  \<open>Array.prototype.sort(comparefn)\<close> is a stable sort: with a consistent comparator its
  result is the one arrangement in which \<open>a\<close> stands before \<open>b\<close> whenever
  \<open>comparefn(a, b) < 0\<close> and entries that compare equal keep their order.  Insertion from
  the right computes it.  \<open>Object.entries\<close> is the identity on the list of entries.
\<close>

fun sort_insert :: "('a \<Rightarrow> 'a \<Rightarrow> int) \<Rightarrow> 'a \<Rightarrow> 'a list \<Rightarrow> 'a list" where
  "sort_insert comparefn x [] = [x]"
| "sort_insert comparefn x (y # ys) =
     (if comparefn x y \<le> 0 then x # y # ys else y # sort_insert comparefn x ys)"

definition Array_sort :: "('a \<Rightarrow> 'a \<Rightarrow> int) \<Rightarrow> 'a list \<Rightarrow> 'a list" where
  "Array_sort comparefn xs = foldr (sort_insert comparefn) xs []"

text \<open>
  \<^verbatim>\<open>Object.entries(counter).sort(([, a], [, b]) => b - a).slice(0, MAX_CONTRIBUTORS)\<close>
\<close>

definition getTopContributors :: "ContributorEntry list \<Rightarrow> ContributorEntry list" where
  "getTopContributors counter =
     slice0 (Array_sort (\<lambda>(_, a) (_, b). b - a) counter) MAX_CONTRIBUTORS"

definition getTopContributors_rich :: "ContributorEntry list \<Rightarrow> ContributorEntry list" where
  "getTopContributors_rich counter =
     slice0 (Array_sort (\<lambda>(_, a) (_, b). b - a) counter) MAX_CONTRIBUTORS"

subsection \<open>Contributor names\<close>

text \<open>
  \<^verbatim>\<open>if (value.length <= max) { return value }\<close>
  \<^verbatim>\<open>return `${value.slice(0, max - 1)}` + ELLIPSIS\<close>
\<close>

definition truncateWithEllipsis :: "jsstring \<Rightarrow> int \<Rightarrow> jsstring" where
  "truncateWithEllipsis v mx =
     (if int (length v) \<le> mx then v else slice0 v (mx - 1) @ [ELLIPSIS])"

definition truncateWithEllipsis_rich :: "jsstring \<Rightarrow> int \<Rightarrow> jsstring" where
  "truncateWithEllipsis_rich v mx =
     (if int (length v) \<le> mx then v else slice0 v (mx - 1) @ [ELLIPSIS])"

text \<open>
  \<open>new URL(value)\<close> is the URL parser of the host, taken as a parameter: \<open>None\<close> when the
  constructor throws, otherwise the \<open>host\<close> and \<open>pathname\<close> of the parsed URL.
\<close>

record URL =
  host :: jsstring
  pathname :: jsstring

type_synonym url_parser = "jsstring \<Rightarrow> URL option"

record link =
  href :: jsstring
  label :: jsstring

text \<open>\<open>s.replace(/\/$/, '')\<close>: a slash at the very end is removed, one at most.\<close>

definition strip_trailing_slash :: "jsstring \<Rightarrow> jsstring" where
  "strip_trailing_slash s = (if s \<noteq> [] \<and> last s = 0x2F then butlast s else s)"

text \<open>
  \<^verbatim>\<open>try { const url = new URL(value)\<close>
  \<^verbatim>\<open>      return { href: value, label: url.host + url.pathname.replace(/\/$/, '') }\<close>
  \<^verbatim>\<open>} catch { return { href: value, label: value } }\<close>
\<close>

definition normalizeLink :: "url_parser \<Rightarrow> jsstring \<Rightarrow> link" where
  "normalizeLink new_URL v =
     (case new_URL v of
        Some url \<Rightarrow> \<lparr> href = v, label = host url @ strip_trailing_slash (pathname url) \<rparr>
      | None \<Rightarrow> \<lparr> href = v, label = v \<rparr>)"

definition normalizeLink_rich :: "url_parser \<Rightarrow> jsstring \<Rightarrow> link" where
  "normalizeLink_rich new_URL v =
     (case new_URL v of
        Some url \<Rightarrow> \<lparr> href = v, label = host url @ strip_trailing_slash (pathname url) \<rparr>
      | None \<Rightarrow> \<lparr> href = v, label = v \<rparr>)"

text \<open>What a render function returns: \<open>null\<close>, a text, an anchor (its class, if it has
  one, its target and its text) or a \<open>span\<close> (its class and its text).\<close>

datatype ReactNode =
    Nothing
  | Text jsstring
  | Anchor "jsstring option" jsstring jsstring
  | Span jsstring jsstring

fun link_target :: "ReactNode \<Rightarrow> jsstring option" where
  "link_target (Anchor c h t) = Some h"
| "link_target _ = None"

fun visible_text :: "ReactNode \<Rightarrow> jsstring" where
  "visible_text Nothing = []"
| "visible_text (Text t) = t"
| "visible_text (Anchor c h t) = t"
| "visible_text (Span c t) = t"

text \<open>
  \<^verbatim>\<open>if (name.startsWith('http://') || name.startsWith('https://')) {\<close>
  \<^verbatim>\<open>  const { label, href } = normalizeLink(name)\<close>
  \<^verbatim>\<open>  return <a target="_blank" rel="noreferrer" href={href}>{truncateWithEllipsis(label, 20)}</a> }\<close>
  \<^verbatim>\<open>return truncateWithEllipsis(name, 20)\<close>
\<close>

definition formatContributorName :: "url_parser \<Rightarrow> jsstring \<Rightarrow> ReactNode" where
  "formatContributorName new_URL name =
     (if startsWith name (ascii ''http://'') \<or> startsWith name (ascii ''https://'')
      then let l = normalizeLink new_URL name
           in Anchor None (href l) (truncateWithEllipsis (label l) 20)
      else Text (truncateWithEllipsis name 20))"

definition formatContributorName_rich :: "url_parser \<Rightarrow> jsstring \<Rightarrow> ReactNode" where
  "formatContributorName_rich new_URL name =
     (if startsWith name (ascii ''http://'') \<or> startsWith name (ascii ''https://'')
      then let l = normalizeLink_rich new_URL name
           in Anchor (Some (ascii ''text-primary underline-offset-4 hover:underline''))
                (href l) (truncateWithEllipsis_rich (label l) 20)
      else Text (truncateWithEllipsis_rich name 20))"

text \<open>
  \<^verbatim>\<open>if (!row.show_public_name) { return null }\<close>
  \<^verbatim>\<open>const publicName = row.span.server_info.public_name\<close>
  \<^verbatim>\<open>if (!publicName) { return null }\<close>
  \<^verbatim>\<open>return formatContributorName(publicName)\<close>

  In the card variant the two early returns are
  \<^verbatim>\<open><span className="text-muted-foreground">Hidden</span>\<close> and the same \<open>span\<close> around an em dash.
\<close>

definition renderContributor :: "url_parser \<Rightarrow> ServerRow \<Rightarrow> ReactNode" where
  "renderContributor new_URL row =
     (if \<not> show_public_name row then Nothing
      else let publicName = public_name (server_info (span row))
           in if \<not> truthy_string publicName then Nothing
              else formatContributorName new_URL (case publicName of Val n \<Rightarrow> n | _ \<Rightarrow> []))"

definition renderContributor_rich :: "url_parser \<Rightarrow> ServerRow \<Rightarrow> ReactNode" where
  "renderContributor_rich new_URL row =
     (if \<not> show_public_name row then Span (ascii ''text-muted-foreground'') (ascii ''Hidden'')
      else let publicName = public_name (server_info (span row))
           in if \<not> truthy_string publicName then Span (ascii ''text-muted-foreground'') [EM_DASH]
              else formatContributorName_rich new_URL (case publicName of Val n \<Rightarrow> n | _ \<Rightarrow> []))"

subsection \<open>Scalar formatters\<close>

text \<open>
  \<^verbatim>\<open>if (!version) { return '< 2.0.0' }\<close>
  \<^verbatim>\<open>return truncateWithEllipsis(version, 10)\<close>
\<close>

definition renderVersion :: "jsstring nullable \<Rightarrow> jsstring" where
  "renderVersion ver =
     (if \<not> truthy_string ver then ascii ''< 2.0.0''
      else truncateWithEllipsis (case ver of Val s \<Rightarrow> s | _ \<Rightarrow> []) 10)"

definition renderVersion_rich :: "jsstring nullable \<Rightarrow> jsstring" where
  "renderVersion_rich ver =
     (if \<not> truthy_string ver then ascii ''< 2.0.0''
      else truncateWithEllipsis_rich (case ver of Val s \<Rightarrow> s | _ \<Rightarrow> []) 10)"

text \<open>\<open>Number.isFinite\<close> of a field \<open>number | null | undefined\<close>.\<close>

fun Number_isFinite :: "jsnum nullable \<Rightarrow> bool" where
  "Number_isFinite (Val n) = is_finite n"
| "Number_isFinite _ = False"

text \<open>\<open>Number(x)\<close> of such a field: \<open>+0\<close> of \<open>null\<close>, not-a-number of \<open>undefined\<close>.\<close>

fun Number_of :: "jsnum nullable \<Rightarrow> jsnum" where
  "Number_of (Val n) = n"
| "Number_of Null = Fin 0"
| "Number_of Undefined = NaN"

text \<open>
  \<^verbatim>\<open>if (!Number.isFinite(throughput)) { return EM_DASH }\<close>
  \<^verbatim>\<open>return `${Math.round(Number(throughput)).toLocaleString()} tok/s`\<close>

  The first argument is the default locale of the host.
\<close>

definition renderThroughput :: "host_locale \<Rightarrow> jsnum nullable \<Rightarrow> jsstring" where
  "renderThroughput loc tp =
     (if \<not> Number_isFinite tp then [EM_DASH]
      else toLocaleString loc (Math_round (Number_of tp)) @ ascii '' tok/s'')"

definition renderThroughput_rich :: "host_locale \<Rightarrow> jsnum nullable \<Rightarrow> jsstring" where
  "renderThroughput_rich loc tp =
     (if \<not> Number_isFinite tp then [EM_DASH]
      else toLocaleString loc (Math_round (Number_of tp)) @ ascii '' tok/s'')"

text \<open>
  \<^verbatim>\<open>if (!Number.isFinite(value)) { return '' }\<close>
  \<^verbatim>\<open>return Math.round(Number(value)).toLocaleString()\<close>
\<close>

definition renderRps :: "host_locale \<Rightarrow> jsnum nullable \<Rightarrow> jsstring" where
  "renderRps loc v = (if \<not> Number_isFinite v then [] else toLocaleString loc (Math_round (Number_of v)))"

definition renderRps_rich :: "host_locale \<Rightarrow> jsnum nullable \<Rightarrow> jsstring" where
  "renderRps_rich loc v = (if \<not> Number_isFinite v then [] else toLocaleString loc (Math_round (Number_of v)))"

text \<open>
  \<^verbatim>\<open>const dtype = info.torch_dtype ? info.torch_dtype.replace('float', 'f') : ''\<close>
  \<^verbatim>\<open>const quant = info.quant_type && info.quant_type !== 'none' ? `(${info.quant_type})` : ''\<close>
  \<^verbatim>\<open>return `${dtype} ${quant}`.trim()\<close>
\<close>

definition renderPrecision :: "ServerInfo \<Rightarrow> jsstring" where
  "renderPrecision info =
     (let dtype = (case torch_dtype info of
                     Val s \<Rightarrow> if s \<noteq> [] then replace_first (ascii ''float'') (ascii ''f'') s else []
                   | _ \<Rightarrow> []);
          quant = (case quant_type info of
                     Val s \<Rightarrow> if s \<noteq> [] \<and> s \<noteq> ascii ''none'' then ascii ''('' @ s @ ascii '')'' else []
                   | _ \<Rightarrow> [])
      in trim (dtype @ ascii '' '' @ quant))"

definition renderPrecision_rich :: "ServerInfo \<Rightarrow> jsstring" where
  "renderPrecision_rich info =
     (let dtype = (case torch_dtype info of
                     Val s \<Rightarrow> if s \<noteq> [] then replace_first (ascii ''float'') (ascii ''f'') s else []
                   | _ \<Rightarrow> []);
          quant = (case quant_type info of
                     Val s \<Rightarrow> if s \<noteq> [] \<and> s \<noteq> ascii ''none'' then ascii ''('' @ s @ ascii '')'' else []
                   | _ \<Rightarrow> [])
      in trim (dtype @ ascii '' '' @ quant))"

text \<open>
  \<^verbatim>\<open>if (usingRelay === undefined || usingRelay === null) { return '' }\<close>
  \<^verbatim>\<open>return usingRelay ? 'Relay' : 'Direct'\<close>
\<close>

fun renderAvailability :: "bool nullable \<Rightarrow> jsstring" where
  "renderAvailability Undefined = []"
| "renderAvailability Null = []"
| "renderAvailability (Val usingRelay) = (if usingRelay then ascii ''Relay'' else ascii ''Direct'')"

fun renderAvailability_rich :: "bool nullable \<Rightarrow> jsstring" where
  "renderAvailability_rich Undefined = []"
| "renderAvailability_rich Null = []"
| "renderAvailability_rich (Val usingRelay) = (if usingRelay then ascii ''Relay'' else ascii ''Direct'')"

text \<open>
  \<^verbatim>\<open>if (rtt <= 5) { return `${(rtt * 1000).toFixed(1)} ms` }\<close>
  \<^verbatim>\<open>return '> 5 s'\<close>
\<close>

definition formatPing :: "jsnum \<Rightarrow> jsstring" where
  "formatPing rtt =
     (if js_le rtt (Fin 5) then toFixed 1 (js_mul rtt (Fin 1000)) @ ascii '' ms''
      else ascii ''> 5 s'')"

definition formatPing_rich :: "jsnum \<Rightarrow> jsstring" where
  "formatPing_rich rtt =
     (if js_le rtt (Fin 5) then toFixed 1 (js_mul rtt (Fin 1000)) @ ascii '' ms''
      else ascii ''> 5 s'')"

section \<open>Sample data\<close>

definition no_info :: ServerInfo where
  "no_info = \<lparr> public_name = Null, version = Null, throughput = Null, inference_rps = Null,
     forward_rps = Null, network_rps = Null, torch_dtype = Null, quant_type = Null,
     using_relay = Null \<rparr>"

definition example_row :: ServerRow where
  "example_row = \<lparr> peer_id = ascii ''12D3KooW'', show_public_name = True, state = unreachable,
     span = \<lparr> span_start = 1, span_end = 3, server_info = no_info \<rparr>, pings_to_me = [] \<rparr>"

definition snapshot :: "jsvalue \<Rightarrow> HealthState" where
  "snapshot p = \<lparr> last_updated = Fin 0, others = [(ascii ''update_period'', p)] \<rparr>"

definition response_with :: "nat \<Rightarrow> jsstring option \<Rightarrow> Response" where
  "response_with code body = \<lparr> status = code, body_text = body, body_json = None \<rparr>"

definition success :: "jsvalue \<Rightarrow> Response" where
  "success payload = \<lparr> status = 200, body_text = None, body_json = Some payload \<rparr>"

text \<open>A URL parser that rejects every text, and one that accepts every text as the same
  URL: enough to run the name formatter on a text either way.\<close>

definition reject_all :: url_parser where
  "reject_all v = None"

definition accept_as :: "string \<Rightarrow> string \<Rightarrow> url_parser" where
  "accept_as h p v = Some \<lparr> host = ascii h, pathname = ascii p \<rparr>"

text \<open>Whether a node shows a name: a text or an anchor, not \<open>null\<close> and not a \<open>span\<close>.\<close>

fun shows_name :: "ReactNode \<Rightarrow> bool" where
  "shows_name (Text t) = True"
| "shows_name (Anchor c h t) = True"
| "shows_name _ = False"

chapter \<open>Properties\<close>

section \<open>Rounding to binary64\<close>

lemma pow2_pos [simp]: "0 < pow2 e"
  by (simp add: pow2_def zero_less_power_int)

lemma pow2_nonneg [simp]: "0 \<le> pow2 e"
  using pow2_pos [of e] by (rule less_imp_le)

lemma pow2_neq0 [simp]: "pow2 e \<noteq> 0"
  by (simp add: pow2_def)

lemma pow2_add: "pow2 (a + b) = pow2 a * pow2 b"
  by (simp add: pow2_def power_int_add)

lemma pow2_diff: "pow2 (a - b) = pow2 a / pow2 b"
  by (simp add: pow2_def power_int_diff)

lemma pow2_nat: "pow2 (int n) = 2 ^ n"
  by (simp add: pow2_def)

lemma pow2_less_iff [simp]: "pow2 a < pow2 b \<longleftrightarrow> a < b"
  unfolding pow2_def
  by (metis linorder_not_less one_less_numeral_iff order_less_le power_int_increasing
      power_int_strict_increasing semiring_norm(76) order.strict_implies_order)

lemma pow2_le_iff [simp]: "pow2 a \<le> pow2 b \<longleftrightarrow> a \<le> b"
  by (metis linorder_not_less pow2_less_iff)

lemma bitlen_pow2_bounds:
  assumes "0 < a"
  shows "pow2 (bitlen a - 1) \<le> of_int a \<and> of_int a < pow2 (bitlen a)"
proof -
  from bitlen_bounds [OF assms] have lo: "2 ^ nat (bitlen a - 1) \<le> a" and hi: "a < 2 ^ nat (bitlen a)"
    by auto
  have pos: "1 \<le> bitlen a"
    using assms bitlen_eq_zero_iff [of a] bitlen_nonneg [of a] by linarith
  have "pow2 (bitlen a - 1) = of_int (2 ^ nat (bitlen a - 1))"
    using pos pow2_nat [of "nat (bitlen a - 1)"] by simp
  moreover have "pow2 (bitlen a) = of_int (2 ^ nat (bitlen a))"
    using pos pow2_nat [of "nat (bitlen a)"] by simp
  ultimately show ?thesis
    using lo hi by (metis of_int_le_iff of_int_less_iff)
qed

text \<open>\<open>ilog2\<close> is the integer part of the binary logarithm.\<close>

lemma ilog2_bounds:
  assumes "0 < q"
  shows "pow2 (ilog2 q) \<le> q \<and> q < pow2 (ilog2 q + 1)"
proof -
  obtain a b where ab: "quotient_of q = (a, b)" by (cases "quotient_of q")
  then have b: "0 < b" and q: "q = of_int a / of_int b"
    by (simp_all add: quotient_of_denom_pos quotient_of_div)
  from assms q b have a: "0 < a"
    by (simp add: zero_less_divide_iff)
  let ?k = "bitlen a - bitlen b"
  note A = bitlen_pow2_bounds [OF a] and B = bitlen_pow2_bounds [OF b]
  have bq: "(0::rat) < of_int b" using b by simp
  have "of_int a < pow2 (bitlen a)" using A by simp
  also have "pow2 (bitlen a) = pow2 (?k + 1) * pow2 (bitlen b - 1)"
    by (simp add: pow2_add [symmetric])
  also have "\<dots> \<le> pow2 (?k + 1) * of_int b"
    using B by (simp add: mult_left_mono)
  finally have hi: "q < pow2 (?k + 1)"
    using bq by (simp add: q pos_divide_less_eq)
  have "pow2 (?k - 1) * of_int b < pow2 (?k - 1) * pow2 (bitlen b)"
    using B by simp
  also have "\<dots> = pow2 (bitlen a - 1)"
    by (simp add: pow2_add [symmetric])
  also have "\<dots> \<le> of_int a" using A by simp
  finally have lo: "pow2 (?k - 1) < q"
    using bq by (simp add: q pos_less_divide_eq)
  show ?thesis
    using lo hi by (auto simp: ilog2_def ab Let_def)
qed

lemma fl_mag_pos:
  "q \<noteq> 0 \<Longrightarrow> fl_mag q =
     (let v = of_int (round_half_even (q / pow2 (ulp_exp q))) * pow2 (ulp_exp q)
      in if pow2 1024 \<le> v then None else Some v)"
  by (simp add: fl_mag_def)

lemma round_half_even_close: "\<bar>of_int (round_half_even r) - r\<bar> \<le> 1 / 2"
proof -
  have "of_int \<lfloor>r\<rfloor> \<le> r" "r < of_int \<lfloor>r\<rfloor> + 1" by linarith+
  then show ?thesis
    by (auto simp: round_half_even_def Let_def)
qed

lemma round_half_even_of_int [simp]: "round_half_even (of_int n) = n"
  by (simp add: round_half_even_def)

lemma round_half_even_ge: "of_int n \<le> r \<Longrightarrow> n \<le> round_half_even r"
proof -
  assume "of_int n \<le> r"
  then have "n \<le> \<lfloor>r\<rfloor>" by (simp add: le_floor_iff)
  then show ?thesis by (auto simp: round_half_even_def Let_def)
qed

lemma round_half_even_le: "r \<le> of_int n \<Longrightarrow> round_half_even r \<le> n"
proof -
  assume r: "r \<le> of_int n"
  show ?thesis
  proof (cases "r = of_int n")
    case True then show ?thesis by simp
  next
    case False
    with r have "r < of_int n" by simp
    then have "\<lfloor>r\<rfloor> < n" by (simp add: floor_less_iff)
    then show ?thesis by (auto simp: round_half_even_def Let_def)
  qed
qed

lemma round_half_even_ge_even:
  assumes "even n"
  shows "n \<le> round_half_even r \<longleftrightarrow> of_int n - 1 / 2 \<le> r"
proof (cases "of_int n \<le> r")
  case True
  then show ?thesis using round_half_even_ge [of n r] by linarith
next
  case False
  then have lt: "r < of_int n" by simp
  then have fl: "\<lfloor>r\<rfloor> \<le> n - 1" by (simp add: floor_less_iff)
  show ?thesis
  proof (cases "\<lfloor>r\<rfloor> = n - 1")
    case True
    then have odd: "odd \<lfloor>r\<rfloor>" using assms by simp
    have d: "r - of_int \<lfloor>r\<rfloor> = r - of_int n + 1" using True by simp
    show ?thesis
      using odd by (auto simp: round_half_even_def Let_def d True)
  next
    case False
    with fl have f2: "\<lfloor>r\<rfloor> \<le> n - 2" by simp
    then have "r < of_int (n - 2) + 1" by (simp add: floor_le_iff)
    then have "r < of_int n - 1" by simp
    moreover have "round_half_even r \<le> \<lfloor>r\<rfloor> + 1" by (auto simp: round_half_even_def Let_def)
    ultimately show ?thesis using f2 by linarith
  qed
qed

text \<open>The rounding error is at most half a unit in the last place.\<close>

lemma fl_mag_error:
  assumes "fl_mag q = Some v"
  shows "\<bar>v - q\<bar> \<le> pow2 (ulp_exp q) / 2"
proof (cases "q = 0")
  case True
  with assms show ?thesis by (simp add: fl_mag_def)
next
  case False
  let ?p = "pow2 (ulp_exp q)"
  let ?m = "round_half_even (q / ?p)"
  from assms False have v: "v = of_int ?m * ?p"
    by (simp add: fl_mag_pos Let_def split: if_splits)
  have "v - q = (of_int ?m - q / ?p) * ?p"
    by (simp add: v algebra_simps)
  then have "\<bar>v - q\<bar> = \<bar>of_int ?m - q / ?p\<bar> * ?p"
    by (simp add: abs_mult)
  also have "\<dots> \<le> (1 / 2) * ?p"
    by (intro mult_right_mono round_half_even_close pow2_nonneg)
  finally show ?thesis by simp
qed

lemma ulp_exp_normal:
  assumes "pow2 (- 1022) \<le> q"
  shows "pow2 (ulp_exp q) \<le> q / 2 ^ 52"
proof -
  have q: "0 < q" using assms pow2_pos [of "- 1022"] by linarith
  note B = ilog2_bounds [OF q]
  have "pow2 (- 1022) < pow2 (ilog2 q + 1)" using assms B by linarith
  then have "- 1022 \<le> ilog2 q" by simp
  then have "ulp_exp q = ilog2 q - 52" by (simp add: ulp_exp_def)
  then have "pow2 (ulp_exp q) = pow2 (ilog2 q) / pow2 52" by (simp add: pow2_diff)
  also have "pow2 52 = 2 ^ 52" using pow2_nat [of 52] by simp
  finally show ?thesis using B by (simp add: divide_right_mono)
qed

lemma fl_mag_rel_error:
  assumes "fl_mag q = Some v" "pow2 (- 1022) \<le> q"
  shows "\<bar>v - q\<bar> \<le> q / 2 ^ 53"
  using fl_mag_error [OF assms(1)] ulp_exp_normal [OF assms(2)] by simp

lemma ulp_exp_le:
  assumes "0 < q" "q < pow2 k" "- 1021 \<le> k"
  shows "ulp_exp q \<le> k - 53"
proof -
  from ilog2_bounds [OF assms(1)] assms(2) have "pow2 (ilog2 q) < pow2 k" by linarith
  then show ?thesis using assms(3) by (simp add: ulp_exp_def)
qed

lemma fl_mag_nonneg:
  assumes "0 \<le> q" "fl_mag q = Some v"
  shows "0 \<le> v"
proof (cases "q = 0")
  case True with assms show ?thesis by (simp add: fl_mag_def)
next
  case False
  have "0 \<le> q / pow2 (ulp_exp q)" using assms(1) by simp
  then have "0 \<le> round_half_even (q / pow2 (ulp_exp q))"
    using round_half_even_ge [of 0] by simp
  with assms False show ?thesis
    by (auto simp: fl_mag_pos Let_def split: if_splits)
qed

text \<open>Overflow happens from \<open>2\<^sup>1\<^sup>0\<^sup>2\<^sup>4 - 2\<^sup>9\<^sup>7\<^sup>0\<close> on, half a unit above the largest
  binary64 value.\<close>

lemma fl_mag_overflow_iff:
  assumes "0 \<le> q"
  shows "fl_mag q = None \<longleftrightarrow> pow2 1024 - pow2 970 \<le> q"
proof (cases "q = 0")
  case True
  have "pow2 970 < pow2 1024" by simp
  with True show ?thesis by (simp add: fl_mag_def)
next
  case False
  with assms have q: "0 < q" by simp
  let ?e = "ulp_exp q"
  let ?t = "q / pow2 ?e"
  let ?m = "round_half_even ?t"
  note B = ilog2_bounds [OF q]
  have none: "fl_mag q = None \<longleftrightarrow> pow2 1024 \<le> of_int ?m * pow2 ?e"
    using False by (simp add: fl_mag_pos Let_def)
  have p53: "pow2 53 = of_int (2 ^ 53)" and p52: "pow2 52 = of_int (2 ^ 52)"
    using pow2_nat [of 53] pow2_nat [of 52] by simp_all
  consider "ilog2 q \<le> 1022" | "ilog2 q = 1023" | "1024 \<le> ilog2 q" by linarith
  then show ?thesis
  proof cases
    case 1
    then have e: "ilog2 q - 52 \<le> ?e" "?e \<le> 970" by (simp_all add: ulp_exp_def)
    have "q < pow2 (ilog2 q + 1)" using B by simp
    also have "\<dots> \<le> pow2 (?e + 53)" using e by simp
    also have "\<dots> = pow2 53 * pow2 ?e" by (simp add: pow2_add mult.commute)
    finally have "?t < pow2 53" by (simp add: pos_divide_less_eq)
    then have "?m \<le> 2 ^ 53" using round_half_even_le [of ?t "2 ^ 53"] by (simp add: p53)
    then have "(of_int ?m :: rat) \<le> pow2 53" unfolding p53 by (simp only: of_int_le_iff)
    then have "of_int ?m * pow2 ?e \<le> pow2 53 * pow2 ?e" by (simp add: mult_right_mono)
    also have "\<dots> = pow2 (?e + 53)" by (simp add: pow2_add mult.commute)
    also have "\<dots> \<le> pow2 1023" using e by simp
    also have "\<dots> < pow2 1024" by simp
    finally have some: "\<not> pow2 1024 \<le> of_int ?m * pow2 ?e" by simp
    have "q < pow2 1023" using B 1 by (smt (verit) pow2_le_iff order_less_le_trans)
    moreover have "pow2 1023 \<le> pow2 1024 - pow2 970"
    proof -
      have "pow2 970 \<le> pow2 1023" by simp
      moreover have "pow2 1024 = 2 * pow2 1023" using pow2_add [of 1 1023] by (simp add: pow2_def)
      ultimately show ?thesis by linarith
    qed
    ultimately show ?thesis using none some by linarith
  next
    case 2
    then have e: "?e = 971" by (simp add: ulp_exp_def)
    have split: "pow2 1024 = pow2 53 * pow2 971" "pow2 970 = (1 / 2) * pow2 971"
      using pow2_add [of 53 971] pow2_add [of "- 1" 971] by (simp_all add: pow2_def)
    have "pow2 1024 \<le> of_int ?m * pow2 ?e \<longleftrightarrow> pow2 53 \<le> of_int ?m"
      by (simp add: e split)
    also have "\<dots> \<longleftrightarrow> 2 ^ 53 \<le> ?m" unfolding p53 by (simp only: of_int_le_iff)
    also have "\<dots> \<longleftrightarrow> of_int (2 ^ 53) - 1 / 2 \<le> ?t"
      by (rule round_half_even_ge_even) simp
    also have "\<dots> \<longleftrightarrow> (pow2 53 - 1 / 2) * pow2 971 \<le> q"
      by (simp add: e p53 pos_le_divide_eq)
    also have "(pow2 53 - 1 / 2) * pow2 971 = pow2 1024 - pow2 970"
      by (simp add: split algebra_simps)
    finally show ?thesis using none by simp
  next
    case 3
    then have e: "?e = ilog2 q - 52" by (simp add: ulp_exp_def)
    have "pow2 52 * pow2 ?e = pow2 (ilog2 q)" by (simp add: e pow2_add [symmetric])
    also have "\<dots> \<le> q" using B by simp
    finally have "pow2 52 \<le> ?t" by (simp add: pos_le_divide_eq)
    then have "2 ^ 52 \<le> ?m" using round_half_even_ge [of "2 ^ 52" ?t] by (simp add: p52)
    then have "pow2 52 \<le> of_int ?m" unfolding p52 by (simp only: of_int_le_iff)
    then have "pow2 52 * pow2 ?e \<le> of_int ?m * pow2 ?e" by (simp add: mult_right_mono)
    moreover have "pow2 1024 \<le> pow2 52 * pow2 ?e"
      using 3 by (simp add: e pow2_add [symmetric])
    ultimately have over: "pow2 1024 \<le> of_int ?m * pow2 ?e" by linarith
    have "pow2 1024 \<le> q" using B 3 by (smt (verit) pow2_le_iff order_trans)
    moreover have "0 < pow2 970" by simp
    ultimately show ?thesis using none over by linarith
  qed
qed

text \<open>A representable magnitude is its own rounding.\<close>

lemma fl_mag_exact:
  assumes "0 \<le> m" "m < 2 ^ 53" "- 1074 \<le> e" "q = of_int m * pow2 e" "q < pow2 1024"
  shows "fl_mag q = Some q"
proof (cases "q = 0")
  case True then show ?thesis by (simp add: fl_mag_def)
next
  case False
  with assms have m: "0 < m" by (cases "m = 0") auto
  then have q: "0 < q" using assms(4) by simp
  have "of_int m < (of_int (2 ^ 53) :: rat)" using assms(2) by (simp only: of_int_less_iff)
  also have "of_int (2 ^ 53) = pow2 53" using pow2_nat [of 53] by simp
  finally have "q < pow2 53 * pow2 e" by (simp add: assms(4))
  then have "q < pow2 (e + 53)" by (simp add: pow2_add mult.commute)
  with ilog2_bounds [OF q] have "pow2 (ilog2 q) < pow2 (e + 53)" by linarith
  then have le: "ulp_exp q \<le> e" using assms(3) by (simp add: ulp_exp_def)
  define u where "u = ulp_exp q"
  define d where "d = nat (e - u)"
  have "pow2 e = pow2 (int d) * pow2 u"
    using le by (simp add: d_def u_def pow2_add [symmetric])
  then have pe: "pow2 e = of_int (2 ^ d) * pow2 u" by (simp add: pow2_nat)
  have qu: "q = of_int (m * 2 ^ d) * pow2 u"
    unfolding assms(4) pe by simp
  then have "q / pow2 u = of_int (m * 2 ^ d)"
    by simp
  then have "of_int (round_half_even (q / pow2 u)) * pow2 u = q"
    using qu by (simp only: round_half_even_of_int)
  then have "of_int (round_half_even (q / pow2 (ulp_exp q))) * pow2 (ulp_exp q) = q"
    by (simp only: u_def)
  then show ?thesis using False assms(5) by (simp add: fl_mag_pos Let_def)
qed

lemma fl_mag_of_nat:
  assumes "n < 2 ^ 53"
  shows "fl_mag (of_nat n) = Some (of_nat n)"
proof (rule fl_mag_exact [where m = "int n" and e = 0])
  show "int n < 2 ^ 53" using assms by (metis of_nat_less_numeral_power_cancel_iff)
  have "(of_nat n :: rat) < of_nat (2 ^ 53)" using assms by (simp only: of_nat_less_iff)
  also have "(of_nat (2 ^ 53) :: rat) = pow2 53" using pow2_nat [of 53] by simp
  also have "pow2 53 < pow2 1024" by simp
  finally show "(of_nat n :: rat) < pow2 1024" .
qed (simp_all add: pow2_def)

lemma threshold_above: "pow2 1023 \<le> pow2 1024 - pow2 970"
proof -
  have "pow2 970 \<le> pow2 1023" by simp
  moreover have "pow2 1024 = 2 * pow2 1023" using pow2_add [of 1 1023] by (simp add: pow2_def)
  ultimately show ?thesis by linarith
qed

lemma fl_mag_normal:
  assumes "pow2 (- 1022) \<le> q" "q < pow2 1023"
  shows "\<exists>v. fl_mag q = Some v \<and> \<bar>v - q\<bar> \<le> q / 2 ^ 53 \<and> 0 < v"
proof -
  have q: "0 < q" using assms(1) pow2_pos [of "- 1022"] by linarith
  then have "fl_mag q \<noteq> None"
    using fl_mag_overflow_iff [of q] assms(2) threshold_above by simp
  then obtain v where v: "fl_mag q = Some v" by auto
  note err = fl_mag_rel_error [OF v assms(1)]
  have "q / 2 ^ 53 < q" using q by (simp add: field_simps)
  with err have "0 < v" by linarith
  with v err show ?thesis by blast
qed

lemma lit_normal:
  assumes "pow2 (- 1022) \<le> q" "q < pow2 1023"
  shows "\<exists>v. lit q = Fin v \<and> \<bar>v - q\<bar> \<le> q / 2 ^ 53 \<and> 0 < v"
proof -
  have q: "0 < q" using assms(1) pow2_pos [of "- 1022"] by linarith
  from fl_mag_normal [OF assms] obtain v where "fl_mag q = Some v" "\<bar>v - q\<bar> \<le> q / 2 ^ 53" "0 < v"
    by blast
  then show ?thesis using q by (auto simp: lit_def with_sign_def)
qed

text \<open>Rounding does not cross an integer that the format holds at that magnitude.\<close>

lemma fl_mag_le_int:
  assumes "0 < q" "q \<le> of_int b" "ulp_exp q \<le> 0" "fl_mag q = Some v"
  shows "v \<le> of_int b"
proof -
  define u where "u = ulp_exp q"
  define N where "N = b * 2 ^ nat (- u)"
  have pu: "pow2 u * 2 ^ nat (- u) = 1"
    using assms(3) pow2_add [of u "- u"] pow2_nat [of "nat (- u)"] by (simp add: u_def pow2_def)
  have N: "of_int N * pow2 u = (of_int b :: rat)"
    using pu by (simp add: N_def mult.assoc mult.commute)
  have "q / pow2 u \<le> of_int b / pow2 u"
    using assms(2) by (simp add: divide_right_mono)
  also have "of_int b / pow2 u = of_int N"
    using N by (simp add: field_simps)
  finally have "round_half_even (q / pow2 u) \<le> N" by (rule round_half_even_le)
  then have "(of_int (round_half_even (q / pow2 u)) :: rat) * pow2 u \<le> of_int N * pow2 u"
    by (intro mult_right_mono) simp_all
  moreover have "v = of_int (round_half_even (q / pow2 u)) * pow2 u"
    using assms(1,4) by (auto simp: fl_mag_pos Let_def u_def split: if_splits)
  ultimately show ?thesis using N by simp
qed

lemma fl_mag_ge_int:
  assumes "0 < q" "of_int b \<le> q" "ulp_exp q \<le> 0" "fl_mag q = Some v"
  shows "of_int b \<le> v"
proof -
  define u where "u = ulp_exp q"
  define N where "N = b * 2 ^ nat (- u)"
  have pu: "pow2 u * 2 ^ nat (- u) = 1"
    using assms(3) pow2_add [of u "- u"] pow2_nat [of "nat (- u)"] by (simp add: u_def pow2_def)
  have N: "of_int N * pow2 u = (of_int b :: rat)"
    using pu by (simp add: N_def mult.assoc mult.commute)
  have "of_int b / pow2 u \<le> q / pow2 u"
    using assms(2) by (simp add: divide_right_mono)
  moreover have "of_int b / pow2 u = of_int N"
    using N by (simp add: field_simps)
  ultimately have "of_int N \<le> q / pow2 u" by simp
  then have "N \<le> round_half_even (q / pow2 u)" by (rule round_half_even_ge)
  then have "of_int N * pow2 u \<le> (of_int (round_half_even (q / pow2 u)) :: rat) * pow2 u"
    by (intro mult_right_mono) simp_all
  moreover have "v = of_int (round_half_even (q / pow2 u)) * pow2 u"
    using assms(1,4) by (auto simp: fl_mag_pos Let_def u_def split: if_splits)
  ultimately show ?thesis using N by simp
qed

section \<open>Block coverage\<close>

lemma STATE_CHARS_length: "length (STATE_CHARS s) = 1"
  by (cases s) (simp_all add: ascii_def)

lemma filter_interval:
  assumes "a \<le> b" "b \<le> n"
  shows "filter (\<lambda>i. a \<le> i \<and> i < b) [0..<n] = [a..<b]"
proof -
  have split: "[0..<n] = [0..<a] @ [a..<b] @ [b..<n]"
    using assms by (metis le_trans upt_add_eq_append le_add_diff_inverse zero_le)
  show ?thesis
    unfolding split by (auto simp: filter_empty_conv intro: filter_True)
qed

lemma covered_map:
  assumes "\<And>i. i < n \<Longrightarrow> (content (f i) \<noteq> []) = (a \<le> i \<and> i < b)"
  shows "covered (map f [0..<n]) = filter (\<lambda>i. a \<le> i \<and> i < b) [0..<n]"
  unfolding covered_def by (rule filter_cong) (simp_all add: assms)

lemma block_cell_content_nonempty:
  "(content (block_cell row idx) \<noteq> []) = inRange row idx"
  by (simp add: block_cell_def) (cases "state row"; simp add: ascii_def)

lemma block_cell_rich_content: "content (block_cell_rich cn row idx) = content (block_cell row idx)"
  by (simp add: block_cell_rich_def block_cell_def)

lemma covered_block_cells:
  assumes "0 \<le> span_start (span row)" "span_start (span row) \<le> span_end (span row)"
    "span_end (span row) \<le> n"
  shows "covered (block_cells row n) = [nat (span_start (span row))..<nat (span_end (span row))]"
proof -
  let ?a = "nat (span_start (span row))" and ?b = "nat (span_end (span row))"
  have "covered (block_cells row n) = filter (\<lambda>i. ?a \<le> i \<and> i < ?b) [0..<nat n]"
    unfolding block_cells_def
    by (rule covered_map) (use assms in \<open>auto simp: block_cell_content_nonempty inRange_def\<close>)
  also have "\<dots> = [?a..<?b]"
    by (rule filter_interval) (use assms in auto)
  finally show ?thesis .
qed

lemma covered_rich: "covered (block_cells_rich cn row n) = covered (block_cells row n)"
  unfolding covered_def block_cells_rich_def block_cells_def
  by (rule filter_cong) (simp_all add: block_cell_rich_content)

text \<open>
  C1.  For a row whose span satisfies \<open>0 \<le> start \<le> end \<le> n\<close>, the block map over
  \<open>n\<close> blocks has one cell per index \<open>0, ..., n - 1\<close>; the cell at index \<open>i\<close> shows the row's
  status glyph when \<open>start \<le> i < end\<close> and is empty otherwise, so the covered indices are
  exactly \<open>start, ..., end - 1\<close>: there are \<open>end - start\<close> of them and all lie below \<open>n\<close>.  Both
  variants render the same texts.  Each glyph is one character; online and joining share
  theirs, unreachable and offline have two further, different ones.
\<close>

theorem block_coverage:
  assumes "0 \<le> span_start (span row)" and "span_start (span row) \<le> span_end (span row)"
    and "span_end (span row) \<le> n"
  shows "map content (block_cells row n) =
           map (\<lambda>i. if span_start (span row) \<le> int i \<and> int i < span_end (span row)
                     then STATE_CHARS (state row) else []) [0..<nat n]
       \<and> covered (block_cells row n) = [nat (span_start (span row))..<nat (span_end (span row))]
       \<and> int (length (covered (block_cells row n))) = span_end (span row) - span_start (span row)
       \<and> set (covered (block_cells row n)) \<subseteq> {0..<nat n}
       \<and> map content (block_cells_rich cn row n) = map content (block_cells row n)
       \<and> covered (block_cells_rich cn row n) = covered (block_cells row n)
       \<and> length (STATE_CHARS (state row)) = 1
       \<and> STATE_CHARS online = STATE_CHARS joining
       \<and> STATE_CHARS unreachable \<noteq> STATE_CHARS online
       \<and> STATE_CHARS offline \<noteq> STATE_CHARS online
       \<and> STATE_CHARS offline \<noteq> STATE_CHARS unreachable"
proof -
  note cov = covered_block_cells [OF assms]
  have texts: "map content (block_cells row n) =
           map (\<lambda>i. if span_start (span row) \<le> int i \<and> int i < span_end (span row)
                     then STATE_CHARS (state row) else []) [0..<nat n]"
    by (simp add: block_cells_def block_cell_def inRange_def)
  have count: "int (length (covered (block_cells row n))) = span_end (span row) - span_start (span row)"
    using assms by (simp add: cov)
  have below: "set (covered (block_cells row n)) \<subseteq> {0..<nat n}"
    using assms by (auto simp: cov)
  have rich: "map content (block_cells_rich cn row n) = map content (block_cells row n)"
    by (simp add: block_cells_rich_def block_cells_def block_cell_rich_content)
  have glyphs: "STATE_CHARS online = STATE_CHARS joining"
    "STATE_CHARS unreachable \<noteq> STATE_CHARS online"
    "STATE_CHARS offline \<noteq> STATE_CHARS online"
    "STATE_CHARS offline \<noteq> STATE_CHARS unreachable"
    by (simp_all add: ascii_def HEAVY_X_def BLACK_CIRCLE_def)
  show ?thesis
    using texts cov count below rich covered_rich [of cn row n] STATE_CHARS_length [of "state row"] glyphs
    by blast
qed

theorem block_coverage_witness:
  "0 \<le> span_start (span example_row) \<and> span_start (span example_row) \<le> span_end (span example_row)
   \<and> span_end (span example_row) \<le> 4
   \<and> map content (block_cells example_row 4) = [[], [HEAVY_X], [HEAVY_X], []]
   \<and> covered (block_cells example_row 4) = [1, 2]
   \<and> map content (block_cells_rich (\<lambda>cs. []) example_row 4) = [[], [HEAVY_X], [HEAVY_X], []]"
proof -
  have h: "0 \<le> span_start (span example_row)" "span_start (span example_row) \<le> span_end (span example_row)"
    "span_end (span example_row) \<le> 4"
    by (simp_all add: example_row_def)
  have up: "[0..<4] = [0, Suc 0, 2, 3]" "[Suc 0..<3] = [Suc 0, 2]"
    by (simp_all add: upt_rec)
  from block_coverage [OF h, of "\<lambda>cs. []"] show ?thesis
    by (simp add: example_row_def up HEAVY_X_def BLACK_CIRCLE_def ascii_def)
qed

section \<open>Contributor ranking\<close>

lemma slice0_take: "0 \<le> e \<Longrightarrow> slice0 xs e = take (nat e) xs"
  by (simp add: slice0_def min_def)








section \<open>The poll interval\<close>

lemma times_1000_not_NaN: "x \<noteq> NaN \<Longrightarrow> js_mul x (Fin 1000) \<noteq> NaN"
  by (cases x) (auto simp: js_mul_def with_sign_def split: option.splits)

lemma Math_max_floor: "x \<noteq> NaN \<Longrightarrow> js_le (Fin 30000) (Math_max x (Fin 30000))"
  by (cases x) (auto simp: Math_max_def js_le_def js_lt_def)

lemma js_mul_int:
  assumes "\<bar>a * b\<bar> < 2 ^ 53" "a * b \<noteq> 0"
  shows "js_mul (Fin (of_int a)) (Fin (of_int b)) = Fin (of_int (a * b))"
proof -
  have mag: "\<bar>of_int a :: rat\<bar> * \<bar>of_int b\<bar> = of_int \<bar>a * b\<bar>"
    by (simp add: abs_mult)
  have "(of_int \<bar>a * b\<bar> :: rat) < of_int (2 ^ 53)"
    using assms(1) by (simp only: of_int_less_iff)
  also have "(of_int (2 ^ 53) :: rat) = pow2 53" using pow2_nat [of 53] by simp
  also have "pow2 53 < pow2 1024" by simp
  finally have "fl_mag (of_int \<bar>a * b\<bar>) = Some (of_int \<bar>a * b\<bar>)"
    using assms(1) by (intro fl_mag_exact [where m = "\<bar>a * b\<bar>" and e = 0]) (simp_all add: pow2_def)
  moreover have "(a < 0) \<noteq> (b < 0) \<longleftrightarrow> a * b < 0"
    using assms(2) by (auto simp: mult_less_0_iff not_less order_le_less)
  ultimately show ?thesis
    using assms(2) by (auto simp: js_mul_def with_sign_def mag simp del: of_int_mult of_int_abs)
qed

lemma Math_max_Fin: "Math_max (Fin a) (Fin b) = Fin (max a b)"
  by (simp add: Math_max_def js_lt_def max_def)

lemma interval_of_int:
  assumes "\<bar>k\<bar> * 1000 < 2 ^ 53"
  shows "Math_max (js_mul (Fin (of_int k)) (Fin 1000)) (Fin 30000) = Fin (of_int (max (k * 1000) 30000))"
proof (cases "k = 0")
  case True
  then show ?thesis by (simp add: js_mul_def with_sign_def fl_mag_def Math_max_Fin)
next
  case False
  have "js_mul (Fin (of_int k)) (Fin (of_int 1000)) = Fin (of_int (k * 1000))"
    using assms False by (intro js_mul_int) (simp_all add: abs_mult)
  then have "js_mul (Fin (of_int k)) (Fin 1000) = Fin (of_int (k * 1000))" by simp
  moreover have "max (of_int (k * 1000)) (30000 :: rat) = of_int (max (k * 1000) 30000)"
    by (simp add: max_def)
  ultimately show ?thesis by (simp only: Math_max_Fin)
qed

lemma pow2_15: "pow2 15 = 32768" by (simp add: pow2_def)

lemma js_mul_1000:
  "js_mul (Fin q) (Fin 1000) = with_sign (q < 0) (fl_mag (\<bar>q\<bar> * 1000))"
  by (simp add: js_mul_def)

lemma interval_low:
  assumes "q * 1000 \<le> 30000"
  shows "Math_max (js_mul (Fin q) (Fin 1000)) (Fin 30000) = Fin 30000"
proof -
  consider "q = 0" | "q < 0" | "0 < q" by linarith
  then show ?thesis
  proof cases
    case 1
    then show ?thesis by (simp add: js_mul_1000 fl_mag_def with_sign_def Math_max_Fin)
  next
    case 2
    show ?thesis
    proof (cases "fl_mag (\<bar>q\<bar> * 1000)")
      case None
      then show ?thesis using 2 by (simp add: js_mul_1000 with_sign_def Math_max_def js_lt_def)
    next
      case (Some v)
      then have "0 \<le> v" using fl_mag_nonneg [of "\<bar>q\<bar> * 1000" v] by simp
      then show ?thesis
        using 2 Some by (simp add: js_mul_1000 with_sign_def Math_max_def js_lt_def)
    qed
  next
    case 3
    then have pos: "0 < q * 1000" by simp
    have lt: "q * 1000 < pow2 15" using assms by (simp add: pow2_15)
    have "pow2 15 < pow2 1023" by simp
    with lt threshold_above have "\<not> pow2 1024 - pow2 970 \<le> q * 1000" by linarith
    then have "fl_mag (q * 1000) \<noteq> None"
      using fl_mag_overflow_iff [of "q * 1000"] pos by simp
    then obtain v where v: "fl_mag (q * 1000) = Some v" by auto
    have "ulp_exp (q * 1000) \<le> 15 - 53" using pos lt by (rule ulp_exp_le) simp
    then have u: "ulp_exp (q * 1000) \<le> 0" by simp
    have "q * 1000 \<le> of_int 30000" using assms by simp
    from fl_mag_le_int [OF pos this u v] have "v \<le> 30000" by simp
    then show ?thesis
      using 3 v by (simp add: js_mul_1000 with_sign_def Math_max_Fin abs_of_pos max_def)
  qed
qed

lemma interval_high:
  assumes "30000 < q * 1000" "q * 1000 < pow2 1024 - pow2 970"
  shows "\<exists>r. Math_max (js_mul (Fin q) (Fin 1000)) (Fin 30000) = Fin r \<and> 30000 \<le> r
           \<and> \<bar>r - q * 1000\<bar> \<le> q * 1000 / 2 ^ 53"
proof -
  have pos: "0 < q * 1000" using assms(1) by linarith
  then have q: "0 < q" by simp
  have "fl_mag (q * 1000) \<noteq> None"
    using fl_mag_overflow_iff [of "q * 1000"] pos assms(2) by simp
  then obtain v where v: "fl_mag (q * 1000) = Some v" by auto
  have "pow2 (- 1022) \<le> pow2 0" by simp
  then have "pow2 (- 1022) \<le> 1" by (simp add: pow2_def)
  with assms(1) have n: "pow2 (- 1022) \<le> q * 1000" by linarith
  note err = fl_mag_rel_error [OF v n]
  have ge: "30000 \<le> v"
  proof (cases "q * 1000 < pow2 53")
    case True
    have "ulp_exp (q * 1000) \<le> 53 - 53" using pos True by (rule ulp_exp_le) simp
    then have u: "ulp_exp (q * 1000) \<le> 0" by simp
    have "of_int 30000 \<le> q * 1000" using assms(1) by simp
    from fl_mag_ge_int [OF pos this u v] show ?thesis by simp
  next
    case False
    then have big: "2 ^ 53 \<le> q * 1000" using pow2_nat [of 53] by simp
    have "q * 1000 / 2 ^ 53 \<le> q * 1000 / 2" using pos by (simp add: field_simps)
    with err have "q * 1000 / 2 \<le> v" by linarith
    with big show ?thesis by simp
  qed
  then have "Math_max (js_mul (Fin q) (Fin 1000)) (Fin 30000) = Fin v"
    using q v by (simp add: js_mul_1000 with_sign_def Math_max_Fin abs_of_pos max_def)
  with ge err show ?thesis by blast
qed

lemma interval_overflow:
  assumes "pow2 1024 - pow2 970 \<le> q * 1000"
  shows "Math_max (js_mul (Fin q) (Fin 1000)) (Fin 30000) = PosInf"
proof -
  have "0 < pow2 1023" by simp
  with threshold_above assms have pos: "0 < q * 1000" by linarith
  then have q: "0 < q" by simp
  have "fl_mag (q * 1000) = None"
    using fl_mag_overflow_iff [of "q * 1000"] pos assms by simp
  then show ?thesis
    using q by (simp add: js_mul_1000 with_sign_def Math_max_def js_lt_def abs_of_pos)
qed

lemma Number_abc: "StringToNumber (ascii ''abc'') = NaN"
  by (simp add: StringToNumber_def trim_def StrWhiteSpaceChar_def NonDecimalIntegerLiteral_def
      startsWith_def StrUnsignedDecimalLiteral_def is_digit_def ascii_def Let_def)

lemma Number_45: "StringToNumber (ascii ''45'') = Fin 45"
proof -
  have "fl_mag (of_nat 45) = Some (of_nat 45)"
    by (rule fl_mag_of_nat) simp
  then show ?thesis
    by (simp add: StringToNumber_def trim_def StrWhiteSpaceChar_def NonDecimalIntegerLiteral_def
        startsWith_def StrUnsignedDecimalLiteral_def is_digit_def decimal_value_def with_sign_def
        ascii_def Let_def)
qed

text \<open>What a successful fetch returns: of an object its properties with \<open>last_updated\<close>
  normalized, so that \<open>update_period\<close> is the one of the payload; of a number, a boolean or
  an array a state without \<open>update_period\<close>; of \<open>null\<close> nothing, for the read throws.\<close>

lemma map_of_filter_other:
  "k \<noteq> k' \<Longrightarrow> map_of (filter (\<lambda>p. fst p \<noteq> k') props) k = map_of props k"
  by (induction props) auto

lemma fetched_object:
  "fetchHealthState now (Some (success (VObject props))) =
     Inr \<lparr> last_updated = normalizeTimestamp now (Get (VObject props) (ascii ''last_updated'')),
           others = filter (\<lambda>p. fst p \<noteq> ascii ''last_updated'') props \<rparr>"
  by (simp add: fetchHealthState_def success_def ok_def own_properties_def)

lemma fetched_update_period:
  assumes "fetchHealthState now (Some (success (VObject props))) = Inr d"
  shows "update_period d = Get (VObject props) (ascii ''update_period'')"
proof -
  have m: "map_of (filter (\<lambda>p. fst p \<noteq> ascii ''last_updated'') props) (ascii ''update_period'')
      = map_of props (ascii ''update_period'')"
    by (rule map_of_filter_other) (simp add: ascii_def)
  from assms have "others d = filter (\<lambda>p. fst p \<noteq> ascii ''last_updated'') props"
    by (auto simp: fetched_object)
  then show ?thesis
    by (simp add: update_period_def Get_def m)
qed

lemma fetched_other:
  "fetchHealthState now (Some (success (VNum n))) = Inr \<lparr> last_updated = Fin (of_int now), others = [] \<rparr>"
  "fetchHealthState now (Some (success (VBool b))) = Inr \<lparr> last_updated = Fin (of_int now), others = [] \<rparr>"
  "fetchHealthState now (Some (success (VArray [VNum n]))) =
     Inr \<lparr> last_updated = Fin (of_int now), others = [(ascii ''0'', VNum n)] \<rparr>"
  "fetchHealthState now (Some (success VNull)) = Inl TypeError"
  by (simp_all add: fetchHealthState_def success_def ok_def own_properties_def Get_def
      normalizeTimestamp_def digits.simps [of 0] digit_char_def upt_rec ascii_def)

lemma update_period_snapshot [simp]: "update_period (snapshot v) = v"
  by (simp add: update_period_def snapshot_def)

lemma refetchInterval_number:
  assumes "v \<noteq> VUndefined" "v \<noteq> VNull" "ToNumber v = Some p"
  shows "update_period d = v \<Longrightarrow> refetchInterval (Some d) = Inr (Math_max (js_mul p (Fin 1000)) (Fin 30000))"
  using assms by (simp add: refetchInterval_def)

lemma refetchInterval_default:
  "refetchInterval None = Inr (Fin 60000)"
  "update_period d = VUndefined \<or> update_period d = VNull \<Longrightarrow> refetchInterval (Some d) = Inr (Fin 60000)"
proof -
  have "Math_max (js_mul (Fin (of_int 60)) (Fin 1000)) (Fin 30000) = Fin (of_int (max (60 * 1000) 30000))"
    by (rule interval_of_int) simp
  then have m: "Math_max (js_mul (Fin 60) (Fin 1000)) (Fin 30000) = Fin 60000" by simp
  show "refetchInterval None = Inr (Fin 60000)"
    by (simp add: refetchInterval_def ToNumber_def m)
  show "update_period d = VUndefined \<or> update_period d = VNull \<Longrightarrow> refetchInterval (Some d) = Inr (Fin 60000)"
    by (auto simp: refetchInterval_def ToNumber_def m)
qed

lemma Math_max_NaN: "Math_max (js_mul NaN (Fin 1000)) (Fin 30000) = NaN"
  by (simp add: js_mul_def Math_max_def)

text \<open>
  C4.  Before any success, and when the held snapshot has no \<open>update_period\<close> or \<open>null\<close>, the
  interval is 60000.  Otherwise it is \<open>Math.max(p * 1000, 30000)\<close> in binary64 arithmetic,
  where \<open>p\<close> is the \<open>update_period\<close> of the held snapshot converted to a number.  Whenever
  \<open>p\<close> is a number (zero, negative and infinite ones included) the interval is at least
  30000: it is 30000 exactly when \<open>p \<times> 1000 \<le> 30000\<close>, the product rounded to the nearest
  binary64 value (within \<open>2\<^sup>-\<^sup>5\<^sup>3\<close> of it, and exact for a whole number of seconds) when it is
  larger, and infinity when the product overflows.  When \<open>p\<close> is not a number, as of the
  text \<open>abc\<close>, the interval is not a number; of an object that cannot be converted the
  computation throws.  Both variants agree.
\<close>

theorem poll_interval_floor:
  "refetchInterval None = Inr (Fin 60000)
   \<and> (update_period d = VUndefined \<or> update_period d = VNull \<longrightarrow>
        refetchInterval (Some d) = Inr (Fin 60000))
   \<and> (update_period d \<noteq> VUndefined \<and> update_period d \<noteq> VNull \<and> ToNumber (update_period d) = Some p \<longrightarrow>
        refetchInterval (Some d) = Inr (Math_max (js_mul p (Fin 1000)) (Fin 30000))
        \<and> (p \<noteq> NaN \<longrightarrow> js_le (Fin 30000) (Math_max (js_mul p (Fin 1000)) (Fin 30000)))
        \<and> (p = NaN \<longrightarrow> refetchInterval (Some d) = Inr NaN))
   \<and> (ToNumber (update_period d) = None \<longrightarrow> refetchInterval (Some d) = Inl TypeError)
   \<and> (update_period d = VNum (Fin q) \<and> q * 1000 \<le> 30000 \<longrightarrow>
        refetchInterval (Some d) = Inr (Fin 30000))
   \<and> (update_period d = VNum (Fin q) \<and> 30000 < q * 1000 \<and> q * 1000 < pow2 1024 - pow2 970 \<longrightarrow>
        (\<exists>r. refetchInterval (Some d) = Inr (Fin r) \<and> 30000 \<le> r
              \<and> \<bar>r - q * 1000\<bar> \<le> q * 1000 / 2 ^ 53))
   \<and> (update_period d = VNum (Fin q) \<and> pow2 1024 - pow2 970 \<le> q * 1000 \<longrightarrow>
        refetchInterval (Some d) = Inr PosInf)
   \<and> (update_period d = VNum (Fin (of_int k)) \<and> \<bar>k\<bar> * 1000 < 2 ^ 53 \<longrightarrow>
        refetchInterval (Some d) = Inr (Fin (of_int (max (k * 1000) 30000))))
   \<and> refetchInterval_rich (Some d) = refetchInterval (Some d)
   \<and> refetchInterval_rich None = refetchInterval None"
proof -
  have num: "update_period d = VNum n \<Longrightarrow>
      refetchInterval (Some d) = Inr (Math_max (js_mul n (Fin 1000)) (Fin 30000))" for n
    by (rule refetchInterval_number [of "VNum n"]) (simp_all add: ToNumber_def)
  have conv: "update_period d \<noteq> VUndefined \<and> update_period d \<noteq> VNull \<and> ToNumber (update_period d) = Some p \<longrightarrow>
        refetchInterval (Some d) = Inr (Math_max (js_mul p (Fin 1000)) (Fin 30000))
        \<and> (p \<noteq> NaN \<longrightarrow> js_le (Fin 30000) (Math_max (js_mul p (Fin 1000)) (Fin 30000)))
        \<and> (p = NaN \<longrightarrow> refetchInterval (Some d) = Inr NaN)"
    using refetchInterval_number [of "update_period d" p d] Math_max_floor [OF times_1000_not_NaN, of p]
    by (auto simp: Math_max_NaN)
  have thrown: "ToNumber (update_period d) = None \<longrightarrow> refetchInterval (Some d) = Inl TypeError"
  proof
    assume n: "ToNumber (update_period d) = None"
    then have "update_period d \<noteq> VUndefined" "update_period d \<noteq> VNull"
      by (auto simp: ToNumber_def)
    with n show "refetchInterval (Some d) = Inl TypeError"
      by (simp add: refetchInterval_def)
  qed
  have low: "update_period d = VNum (Fin q) \<and> q * 1000 \<le> 30000 \<longrightarrow>
        refetchInterval (Some d) = Inr (Fin 30000)"
    using num [of "Fin q"] interval_low [of q] by simp
  have high: "update_period d = VNum (Fin q) \<and> 30000 < q * 1000 \<and> q * 1000 < pow2 1024 - pow2 970 \<longrightarrow>
        (\<exists>r. refetchInterval (Some d) = Inr (Fin r) \<and> 30000 \<le> r
              \<and> \<bar>r - q * 1000\<bar> \<le> q * 1000 / 2 ^ 53)"
    using num [of "Fin q"] interval_high [of q] by auto
  have over: "update_period d = VNum (Fin q) \<and> pow2 1024 - pow2 970 \<le> q * 1000 \<longrightarrow>
        refetchInterval (Some d) = Inr PosInf"
    using num [of "Fin q"] interval_overflow [of q] by simp
  have whole: "update_period d = VNum (Fin (of_int k)) \<and> \<bar>k\<bar> * 1000 < 2 ^ 53 \<longrightarrow>
        refetchInterval (Some d) = Inr (Fin (of_int (max (k * 1000) 30000)))"
    using num [of "Fin (of_int k)"] interval_of_int [of k] by simp
  have rich: "refetchInterval_rich x = refetchInterval x" for x
    by (simp add: refetchInterval_rich_def refetchInterval_def)
  show ?thesis
    using refetchInterval_default(1) refetchInterval_default(2) [of d] conv thrown low high over whole rich by blast
qed

theorem poll_interval_floor_witness:
  "update_period (snapshot (VNum (Fin (of_int (- 5))))) = VNum (Fin (of_int (- 5)))
   \<and> \<bar>- 5 :: int\<bar> * 1000 < 2 ^ 53
   \<and> refetchInterval (Some (snapshot (VNum (Fin (of_int (- 5)))))) = Inr (Fin 30000)
   \<and> update_period (snapshot VNull) = VNull
   \<and> refetchInterval (Some (snapshot VNull)) = Inr (Fin 60000)
   \<and> ToNumber (update_period (snapshot (VStr (ascii ''45'')))) = Some (Fin 45)
   \<and> refetchInterval (Some (snapshot (VStr (ascii ''45'')))) = Inr (Fin 45000)
   \<and> js_le (Fin 30000) (Fin 45000)
   \<and> ToNumber (update_period (snapshot (VStr (ascii ''abc'')))) = Some NaN
   \<and> refetchInterval (Some (snapshot (VStr (ascii ''abc'')))) = Inr NaN
   \<and> ToNumber (update_period (snapshot (VObject [(ascii ''toString'', VNull)]))) = None
   \<and> refetchInterval (Some (snapshot (VObject [(ascii ''toString'', VNull)]))) = Inl TypeError
   \<and> update_period (snapshot (VNum (Fin (451 / 10)))) = VNum (Fin (451 / 10))
   \<and> (30000 :: rat) < 451 / 10 * 1000 \<and> (451 / 10 * 1000 :: rat) < pow2 1024 - pow2 970
   \<and> (\<exists>r. refetchInterval (Some (snapshot (VNum (Fin (451 / 10))))) = Inr (Fin r) \<and> 30000 \<le> r
          \<and> \<bar>r - 451 / 10 * 1000\<bar> \<le> 451 / 10 * 1000 / 2 ^ 53)
   \<and> update_period (snapshot (VNum (Fin (pow2 1023)))) = VNum (Fin (pow2 1023))
   \<and> pow2 1024 - pow2 970 \<le> pow2 1023 * 1000
   \<and> refetchInterval (Some (snapshot (VNum (Fin (pow2 1023))))) = Inr PosInf"
proof -
  have a: "update_period (snapshot (VNum (Fin (of_int (- 5))))) = VNum (Fin (of_int (- 5)))"
    "\<bar>- 5 :: int\<bar> * 1000 < 2 ^ 53"
    by simp_all
  have "refetchInterval (Some (snapshot (VNum (Fin (of_int (- 5)))))) = Inr (Fin (of_int (max (- 5 * 1000) 30000)))"
    using poll_interval_floor [of "snapshot (VNum (Fin (of_int (- 5))))" NaN 0 "- 5"] a by blast
  then have a': "refetchInterval (Some (snapshot (VNum (Fin (of_int (- 5)))))) = Inr (Fin 30000)"
    by simp
  have b: "update_period (snapshot VNull) = VNull" by simp
  have b': "refetchInterval (Some (snapshot VNull)) = Inr (Fin 60000)"
    using poll_interval_floor [of "snapshot VNull" NaN 0 0] b by blast
  have c: "update_period (snapshot (VStr (ascii ''45''))) \<noteq> VUndefined"
    "update_period (snapshot (VStr (ascii ''45''))) \<noteq> VNull"
    "ToNumber (update_period (snapshot (VStr (ascii ''45'')))) = Some (Fin 45)"
    by (simp_all add: ToNumber_def Number_45)
  have m: "Math_max (js_mul (Fin (of_int 45)) (Fin 1000)) (Fin 30000) = Fin (of_int (max (45 * 1000) 30000))"
    by (rule interval_of_int) simp
  have "refetchInterval (Some (snapshot (VStr (ascii ''45'')))) = Inr (Math_max (js_mul (Fin 45) (Fin 1000)) (Fin 30000))
      \<and> js_le (Fin 30000) (Math_max (js_mul (Fin 45) (Fin 1000)) (Fin 30000))"
    using poll_interval_floor [of "snapshot (VStr (ascii ''45''))" "Fin 45" 0 0] c by blast
  then have c': "refetchInterval (Some (snapshot (VStr (ascii ''45'')))) = Inr (Fin 45000)"
    "js_le (Fin 30000) (Fin 45000)"
    using m by simp_all
  have n: "update_period (snapshot (VStr (ascii ''abc''))) \<noteq> VUndefined"
    "update_period (snapshot (VStr (ascii ''abc''))) \<noteq> VNull"
    "ToNumber (update_period (snapshot (VStr (ascii ''abc'')))) = Some NaN"
    by (simp_all add: ToNumber_def Number_abc)
  have n': "refetchInterval (Some (snapshot (VStr (ascii ''abc'')))) = Inr NaN"
    using poll_interval_floor [of "snapshot (VStr (ascii ''abc''))" NaN 0 0] n by blast
  have e: "ToNumber (update_period (snapshot (VObject [(ascii ''toString'', VNull)]))) = None"
    by (simp add: ToNumber_def)
  have e': "refetchInterval (Some (snapshot (VObject [(ascii ''toString'', VNull)]))) = Inl TypeError"
    using poll_interval_floor [of "snapshot (VObject [(ascii ''toString'', VNull)])" NaN 0 0] e by blast
  have "pow2 16 \<le> pow2 1023" by simp
  then have "(65536 :: rat) \<le> pow2 1023" by (simp add: pow2_def)
  with threshold_above have g2: "(451 / 10 * 1000 :: rat) < pow2 1024 - pow2 970" by linarith
  have g: "update_period (snapshot (VNum (Fin (451 / 10)))) = VNum (Fin (451 / 10))"
    "(30000 :: rat) < 451 / 10 * 1000"
    by simp_all
  have g': "\<exists>r. refetchInterval (Some (snapshot (VNum (Fin (451 / 10))))) = Inr (Fin r) \<and> 30000 \<le> r
          \<and> \<bar>r - 451 / 10 * 1000\<bar> \<le> 451 / 10 * 1000 / 2 ^ 53"
    using poll_interval_floor [of "snapshot (VNum (Fin (451 / 10)))" NaN "451 / 10" 0] g g2 by blast
  have "pow2 1023 \<le> pow2 1023 * 1000" by simp
  moreover have "pow2 1024 = 2 * pow2 1023" using pow2_add [of 1 1023] by (simp add: pow2_def)
  moreover have "0 < pow2 970" by simp
  ultimately have f2: "pow2 1024 - pow2 970 \<le> pow2 1023 * 1000" by linarith
  have f: "update_period (snapshot (VNum (Fin (pow2 1023)))) = VNum (Fin (pow2 1023))" by simp
  have f': "refetchInterval (Some (snapshot (VNum (Fin (pow2 1023))))) = Inr PosInf"
    using poll_interval_floor [of "snapshot (VNum (Fin (pow2 1023)))" NaN "pow2 1023" 0] f f2 by blast
  show ?thesis
    using a a' b b' c(3) c' n(3) n' e e' g g2 g' f f2 f' by blast
qed

text \<open>A payload whose \<open>update_period\<close> is the text \<open>abc\<close>: the interval is not a number.\<close>

theorem poll_interval_counterexample:
  "fetchHealthState 0 (Some (success (VObject [(ascii ''update_period'', VStr (ascii ''abc''))])))
     = Inr (snapshot (VStr (ascii ''abc'')))
   \<and> refetchInterval (Some (snapshot (VStr (ascii ''abc'')))) = Inr NaN
   \<and> \<not> js_le (Fin 30000) NaN"
proof -
  have "fetchHealthState 0 (Some (success (VObject [(ascii ''update_period'', VStr (ascii ''abc''))])))
     = Inr (snapshot (VStr (ascii ''abc'')))"
    by (simp add: fetchHealthState_def success_def ok_def snapshot_def Get_def own_properties_def
        normalizeTimestamp_def ascii_def)
  moreover have "refetchInterval (Some (snapshot (VStr (ascii ''abc'')))) = Inr NaN"
    by (simp add: refetchInterval_def ToNumber_def Number_abc Math_max_NaN)
  moreover have "\<not> js_le (Fin 30000) NaN"
    by (simp add: js_le_def)
  ultimately show ?thesis by blast
qed

section \<open>Failed requests\<close>

lemma digits_500: "digits 500 = ascii ''500''"
  by (simp add: digits.simps [of 500] digits.simps [of 50] digits.simps [of 5] digit_char_def ascii_def)

text \<open>
  C5.  On a response whose status is not 2xx, \<open>fetchHealthState\<close> throws an \<open>Error\<close>; its
  message is the text of the body when that can be read and is not empty, and
  \<open>Request failed with status\<close> followed by the status code otherwise, that is when the
  body cannot be read or is empty.  Reading the body does not throw: a failure to read it
  comes back as \<open>undefined\<close>.
\<close>

theorem failed_request_message:
  assumes "\<not> ok response"
  shows "fetchHealthState now (Some response) =
           Inl (Error (case body_text response of
                         Some t \<Rightarrow> if t \<noteq> [] then t
                                   else ascii ''Request failed with status '' @ digits (status response)
                       | None \<Rightarrow> ascii ''Request failed with status '' @ digits (status response)))
       \<and> safeReadText response = (case body_text response of Some t \<Rightarrow> Val t | None \<Rightarrow> Undefined)"
  using assms by (simp add: fetchHealthState_def safeReadText_def split: option.splits)

theorem failed_request_message_witness:
  "\<not> ok (response_with 404 (Some (ascii ''Not found'')))
   \<and> fetchHealthState 0 (Some (response_with 404 (Some (ascii ''Not found'')))) = Inl (Error (ascii ''Not found''))
   \<and> \<not> ok (response_with 500 None)
   \<and> fetchHealthState 0 (Some (response_with 500 None)) = Inl (Error (ascii ''Request failed with status 500''))"
proof -
  have a: "\<not> ok (response_with 404 (Some (ascii ''Not found'')))"
    and b: "\<not> ok (response_with 500 None)"
    by (simp_all add: ok_def response_with_def)
  from failed_request_message [OF a, of 0] failed_request_message [OF b, of 0] a b show ?thesis
    by (simp add: response_with_def digits_500 ascii_def)
qed

text \<open>An empty body can be read, and the message is not that body.\<close>

theorem empty_body_counterexample:
  "\<not> ok (response_with 500 (Some []))
   \<and> safeReadText (response_with 500 (Some [])) = Val []
   \<and> fetchHealthState 0 (Some (response_with 500 (Some []))) = Inl (Error (ascii ''Request failed with status 500''))
   \<and> fetchHealthState 0 (Some (response_with 500 (Some []))) \<noteq> Inl (Error [])"
  by (simp add: fetchHealthState_def safeReadText_def ok_def response_with_def digits_500 ascii_def)

section \<open>Contributor names\<close>

lemma truncate_20:
  "truncateWithEllipsis v 20 = (if length v \<le> 20 then v else take 19 v @ [ELLIPSIS])"
  by (simp add: truncateWithEllipsis_def slice0_take)

text \<open>
  C6.  A name that starts with \<open>http://\<close> or \<open>https://\<close> renders as an anchor whose target
  is the name as given; its text is \<open>host\<close> followed by \<open>pathname\<close> without one slash at the
  end when the URL constructor accepts the name, and the name itself when it throws.
  Any other name renders as a plain text, the name itself, with no target.  In all
  cases the text shown is cut to 20 characters: a text of at most 20 is unchanged, a
  longer one becomes its first 19 characters and the ellipsis, 20 characters in all.
\<close>

theorem contributor_name_format:
  "formatContributorName new_URL name =
     (if startsWith name (ascii ''http://'') \<or> startsWith name (ascii ''https://'')
      then Anchor None name
             (truncateWithEllipsis
                (case new_URL name of
                   Some url \<Rightarrow> host url @ strip_trailing_slash (pathname url)
                 | None \<Rightarrow> name) 20)
      else Text (truncateWithEllipsis name 20))
   \<and> strip_trailing_slash (p @ ascii ''/'') = p
   \<and> (if p \<noteq> [] \<and> last p = 0x2F then strip_trailing_slash p = butlast p else strip_trailing_slash p = p)
   \<and> truncateWithEllipsis v 20 = (if length v \<le> 20 then v else take 19 v @ [ELLIPSIS])
   \<and> length (truncateWithEllipsis v 20) = min (length v) 20
   \<and> (if 20 < length v then truncateWithEllipsis v 20 ! 19 = ELLIPSIS else truncateWithEllipsis v 20 = v)
   \<and> length (visible_text (formatContributorName new_URL name)) \<le> 20
   \<and> link_target (formatContributorName new_URL name) =
       (if startsWith name (ascii ''http://'') \<or> startsWith name (ascii ''https://'')
        then Some name else None)"
proof -
  have shape: "formatContributorName new_URL name =
     (if startsWith name (ascii ''http://'') \<or> startsWith name (ascii ''https://'')
      then Anchor None name
             (truncateWithEllipsis
                (case new_URL name of
                   Some url \<Rightarrow> host url @ strip_trailing_slash (pathname url)
                 | None \<Rightarrow> name) 20)
      else Text (truncateWithEllipsis name 20))"
    by (simp add: formatContributorName_def normalizeLink_def Let_def split: option.splits)
  have len: "length (truncateWithEllipsis w 20) = min (length w) 20" for w
    by (simp add: truncate_20)
  have nth: "(if 20 < length v then truncateWithEllipsis v 20 ! 19 = ELLIPSIS else truncateWithEllipsis v 20 = v)"
    by (simp add: truncate_20 nth_append)
  have slash: "strip_trailing_slash (p @ ascii ''/'') = p"
    "(if p \<noteq> [] \<and> last p = 0x2F then strip_trailing_slash p = butlast p else strip_trailing_slash p = p)"
    by (simp_all add: strip_trailing_slash_def ascii_def)
  have shown: "length (visible_text (formatContributorName new_URL name)) \<le> 20"
    unfolding shape by (simp add: len)
  have target: "link_target (formatContributorName new_URL name) =
       (if startsWith name (ascii ''http://'') \<or> startsWith name (ascii ''https://'')
        then Some name else None)"
    unfolding shape by simp
  show ?thesis
    using shape slash truncate_20 [of v] len [of v] nth shown target by blast
qed

text \<open>A name that is no URL has no target.\<close>

theorem plain_name_counterexample:
  "formatContributorName reject_all (ascii ''alice'') = Text (ascii ''alice'')
   \<and> link_target (formatContributorName reject_all (ascii ''alice'')) = None
   \<and> link_target (formatContributorName reject_all (ascii ''alice'')) \<noteq> Some (ascii ''alice'')"
  by (simp add: formatContributorName_def startsWith_def truncate_20 ascii_def)

text \<open>An accepted URL, a rejected one and a long plain name.\<close>

lemma link_example:
  "formatContributorName (accept_as ''example.com'' ''/team/'') (ascii ''https://example.com/team/'')
     = Anchor None (ascii ''https://example.com/team/'') (ascii ''example.com/team'')
   \<and> formatContributorName reject_all (ascii ''http://[bad'')
     = Anchor None (ascii ''http://[bad'') (ascii ''http://[bad'')
   \<and> formatContributorName reject_all (ascii ''a-very-long-contributor-name'')
     = Text (ascii ''a-very-long-contrib'' @ [ELLIPSIS])"
  by (simp add: formatContributorName_def normalizeLink_def accept_as_def reject_all_def
      startsWith_def truncate_20 strip_trailing_slash_def ascii_def)

section \<open>The contributor cell\<close>

lemma formatContributorName_shows: "shows_name (formatContributorName new_URL n)"
  by (simp add: formatContributorName_def Let_def)

lemma formatContributorName_rich_shows: "shows_name (formatContributorName_rich new_URL n)"
  by (simp add: formatContributorName_rich_def Let_def)

text \<open>
  C9.  The contributor cell shows a name exactly when \<open>show_public_name\<close> is true and
  \<open>public_name\<close> is a string that is not empty.  Otherwise the card variant shows the text
  \<open>Hidden\<close> when \<open>show_public_name\<close> is false and an em dash when only the name is missing,
  two different texts, and the plain variant shows nothing in either case.
\<close>

theorem contributor_cell:
  "shows_name (renderContributor_rich new_URL row)
     = (show_public_name row \<and> truthy_string (public_name (server_info (span row))))
   \<and> shows_name (renderContributor new_URL row)
     = (show_public_name row \<and> truthy_string (public_name (server_info (span row))))
   \<and> renderContributor_rich new_URL row =
       (if \<not> show_public_name row then Span (ascii ''text-muted-foreground'') (ascii ''Hidden'')
        else if \<not> truthy_string (public_name (server_info (span row)))
          then Span (ascii ''text-muted-foreground'') [EM_DASH]
        else formatContributorName_rich new_URL
               (case public_name (server_info (span row)) of Val n \<Rightarrow> n | _ \<Rightarrow> []))
   \<and> renderContributor new_URL row =
       (if show_public_name row \<and> truthy_string (public_name (server_info (span row)))
        then formatContributorName new_URL
               (case public_name (server_info (span row)) of Val n \<Rightarrow> n | _ \<Rightarrow> [])
        else Nothing)
   \<and> Span (ascii ''text-muted-foreground'') (ascii ''Hidden'') \<noteq> Span (ascii ''text-muted-foreground'') [EM_DASH]
   \<and> visible_text (Span (ascii ''text-muted-foreground'') (ascii ''Hidden'')) \<noteq> [EM_DASH]"
proof -
  have rich: "renderContributor_rich new_URL row =
       (if \<not> show_public_name row then Span (ascii ''text-muted-foreground'') (ascii ''Hidden'')
        else if \<not> truthy_string (public_name (server_info (span row)))
          then Span (ascii ''text-muted-foreground'') [EM_DASH]
        else formatContributorName_rich new_URL
               (case public_name (server_info (span row)) of Val n \<Rightarrow> n | _ \<Rightarrow> []))"
    by (simp add: renderContributor_rich_def Let_def)
  have plain: "renderContributor new_URL row =
       (if show_public_name row \<and> truthy_string (public_name (server_info (span row)))
        then formatContributorName new_URL
               (case public_name (server_info (span row)) of Val n \<Rightarrow> n | _ \<Rightarrow> [])
        else Nothing)"
    by (simp add: renderContributor_def Let_def)
  have "shows_name (renderContributor_rich new_URL row)
     = (show_public_name row \<and> truthy_string (public_name (server_info (span row))))"
    unfolding rich by (simp add: formatContributorName_rich_shows)
  moreover have "shows_name (renderContributor new_URL row)
     = (show_public_name row \<and> truthy_string (public_name (server_info (span row))))"
    unfolding plain by (simp add: formatContributorName_shows)
  moreover have "Span (ascii ''text-muted-foreground'') (ascii ''Hidden'') \<noteq> Span (ascii ''text-muted-foreground'') [EM_DASH]"
    "visible_text (Span (ascii ''text-muted-foreground'') (ascii ''Hidden'')) \<noteq> [EM_DASH]"
    by (simp_all add: ascii_def)
  ultimately show ?thesis
    using rich plain by blast
qed

section \<open>The two variants\<close>

lemma truncate_rich: "truncateWithEllipsis_rich = truncateWithEllipsis"
  by (intro ext) (simp add: truncateWithEllipsis_rich_def truncateWithEllipsis_def)

text \<open>
  C10.  The functions \<open>getTopContributors\<close>, \<open>truncateWithEllipsis\<close>, \<open>normalizeLink\<close>,
  \<open>renderVersion\<close>, \<open>renderThroughput\<close>, \<open>renderRps\<close>, \<open>renderPrecision\<close>, \<open>renderAvailability\<close>
  and \<open>formatPing\<close> of the card variant are equal, as functions, to those of the plain
  variant.
\<close>

theorem variants_agree:
  "getTopContributors_rich = getTopContributors
   \<and> truncateWithEllipsis_rich = truncateWithEllipsis
   \<and> normalizeLink_rich = normalizeLink
   \<and> renderVersion_rich = renderVersion
   \<and> renderThroughput_rich = renderThroughput
   \<and> renderRps_rich = renderRps
   \<and> renderPrecision_rich = renderPrecision
   \<and> renderAvailability_rich = renderAvailability
   \<and> formatPing_rich = formatPing"
proof (intro conjI)
  show "getTopContributors_rich = getTopContributors"
    by (intro ext) (simp add: getTopContributors_rich_def getTopContributors_def)
  show "truncateWithEllipsis_rich = truncateWithEllipsis"
    by (rule truncate_rich)
  show "normalizeLink_rich = normalizeLink"
    by (intro ext) (simp add: normalizeLink_rich_def normalizeLink_def)
  show "renderVersion_rich = renderVersion"
    by (intro ext) (simp add: renderVersion_rich_def renderVersion_def truncate_rich)
  show "renderThroughput_rich = renderThroughput"
    by (intro ext) (simp add: renderThroughput_rich_def renderThroughput_def)
  show "renderRps_rich = renderRps"
    by (intro ext) (simp add: renderRps_rich_def renderRps_def)
  show "renderPrecision_rich = renderPrecision"
    by (intro ext) (simp add: renderPrecision_rich_def renderPrecision_def)
  show "renderAvailability_rich = renderAvailability"
  proof
    fix u show "renderAvailability_rich u = renderAvailability u"
      by (cases u) simp_all
  qed
  show "formatPing_rich = formatPing"
    by (intro ext) (simp add: formatPing_rich_def formatPing_def)
qed

section \<open>Round-trip times\<close>


lemma fl_mag_small:
  assumes "0 \<le> q" "q \<le> 5000"
  shows "\<exists>v. fl_mag q = Some v \<and> 0 \<le> v \<and> \<bar>v - q\<bar> \<le> pow2 (- 41)"
proof (cases "q = 0")
  case True
  then show ?thesis by (simp add: fl_mag_def)
next
  case False
  with assms have q: "0 < q" by simp
  have p13: "pow2 13 = 8192" by (simp add: pow2_def)
  have lt: "q < pow2 13" using assms(2) by (simp add: p13)
  have le: "pow2 13 \<le> pow2 1023" by simp
  have "\<not> pow2 1024 - pow2 970 \<le> q" using lt le threshold_above by linarith
  then have "fl_mag q \<noteq> None"
    using fl_mag_overflow_iff [of q] q by simp
  then obtain v where v: "fl_mag q = Some v" by auto
  have "ulp_exp q \<le> 13 - 53" by (rule ulp_exp_le [OF q lt]) simp
  then have "pow2 (ulp_exp q) \<le> pow2 (- 40)" by simp
  moreover have "pow2 (- 40) / 2 = pow2 (- 41)" using pow2_diff [of "- 40" 1] by (simp add: pow2_def)
  ultimately have "\<bar>v - q\<bar> \<le> pow2 (- 41)" using fl_mag_error [OF v] by linarith
  with v fl_mag_nonneg [OF assms(1) v] show ?thesis by blast
qed

lemma digits_nonempty: "digits n \<noteq> []"
  by (subst digits.simps) simp

lemma digits_small: "n < 10 \<Longrightarrow> digits n = [digit_char n]"
  by (subst digits.simps) simp

lemma digit_char_is_digit: "d < 10 \<Longrightarrow> is_digit (digit_char d)"
proof -
  assume "d < 10"
  then have "d \<in> {0, 1, 2, 3, 4, 5, 6, 7, 8, 9}" by auto
  then show ?thesis
    by (auto simp: is_digit_def digit_char_def)
qed

lemma digits_are_digits: "list_all is_digit (digits n)"
proof (induction n rule: digits.induct)
  case (1 n)
  show ?case
  proof (cases "n < 10")
    case True
    then show ?thesis by (simp add: digits_small digit_char_is_digit)
  next
    case False
    then have "digits n = digits (n div 10) @ [digit_char (n mod 10)]"
      by (subst digits.simps) simp
    with 1 False show ?thesis by (simp add: digit_char_is_digit)
  qed
qed

lemma insert_point_1:
  "insert_point 1 (digits n) = digits (n div 10) @ ascii ''.'' @ digits (n mod 10)"
proof (cases "n < 10")
  case True
  then show ?thesis
    by (simp add: insert_point_def digits_small)
next
  case False
  then have d: "digits n = digits (n div 10) @ [digit_char (n mod 10)]"
    by (subst digits.simps) simp
  have "Suc 0 \<le> length (digits (n div 10))"
    using digits_nonempty [of "n div 10"] by (cases "digits (n div 10)") simp_all
  then have "Suc (Suc 0) - length (digits n) = 0" by (simp add: d)
  then show ?thesis
    by (simp add: insert_point_def d digits_small)
qed

lemma toFixed_1:
  assumes "is_finite x" "0 \<le> mathval x" "mathval x < 10 ^ 21"
  shows "toFixed 1 x = digits (nat \<lfloor>mathval x * 10 + 1 / 2\<rfloor> div 10) @ ascii ''.''
           @ digits (nat \<lfloor>mathval x * 10 + 1 / 2\<rfloor> mod 10)"
proof -
  have abs: "\<bar>mathval x\<bar> = mathval x" using assms(2) by simp
  have "toFixed 1 x = insert_point 1 (digits (nat \<lfloor>mathval x * 10 + 1 / 2\<rfloor>))"
    using assms by (simp add: toFixed_def abs Let_def not_le)
  then show ?thesis by (simp only: insert_point_1)
qed

lemma ping_product:
  assumes "is_finite r" "0 \<le> mathval r" "mathval r \<le> 5"
  shows "is_finite (js_mul r (Fin 1000)) \<and> 0 \<le> mathval (js_mul r (Fin 1000))
       \<and> \<bar>mathval (js_mul r (Fin 1000)) - mathval r * 1000\<bar> \<le> pow2 (- 41)"
proof -
  have "0 \<le> mathval r * 1000" "mathval r * 1000 \<le> 5000" using assms by simp_all
  from fl_mag_small [OF this] obtain v where
    v: "fl_mag (mathval r * 1000) = Some v" "0 \<le> v" "\<bar>v - mathval r * 1000\<bar> \<le> pow2 (- 41)"
    by blast
  have abs: "\<bar>mathval r\<bar> = mathval r" using assms(2) by simp
  show ?thesis
  proof (cases r)
    case (Fin a)
    then show ?thesis using v assms abs by (auto simp: js_mul_def with_sign_def)
  next
    case NegZero
    then show ?thesis by (simp add: js_mul_def with_sign_def fl_mag_def)
  qed (use assms in simp_all)
qed

lemma ping_format:
  assumes "is_finite r" "0 \<le> mathval r" "mathval r \<le> 5"
  shows "formatPing r =
           digits (nat \<lfloor>mathval (js_mul r (Fin 1000)) * 10 + 1 / 2\<rfloor> div 10) @ ascii ''.''
           @ digits (nat \<lfloor>mathval (js_mul r (Fin 1000)) * 10 + 1 / 2\<rfloor> mod 10) @ ascii '' ms''"
proof -
  note P = ping_product [OF assms]
  have p41: "pow2 (- 41) \<le> 1" using pow2_le_iff [of "- 41" 0] by (simp add: pow2_def)
  have "mathval (js_mul r (Fin 1000)) \<le> mathval r * 1000 + pow2 (- 41)" using P by linarith
  also have "\<dots> \<le> 5001" using assms(3) p41 by linarith
  finally have small: "mathval (js_mul r (Fin 1000)) < 10 ^ 21" by simp
  have le5: "js_le r (Fin 5)"
    using assms by (cases r) (simp_all add: js_le_def js_lt_def)
  show ?thesis
    using le5 toFixed_1 [of "js_mul r (Fin 1000)"] P small by (simp add: formatPing_def)
qed

lemma ping_slow: "js_lt (Fin 5) r \<Longrightarrow> formatPing r = ascii ''> 5 s''"
  by (simp add: formatPing_def js_le_def)

lemma digits_42: "digits 42 = ascii ''42''" and digits_3: "digits 3 = ascii ''3''"
  by (simp_all add: digits.simps [of 42] digits.simps [of 4] digits_small digit_char_def ascii_def)

lemma p1022: "pow2 (- 1022) \<le> 1 / 32"
proof -
  have "pow2 (- 1022) \<le> pow2 (- 5)" by simp
  then show ?thesis by (simp add: pow2_def)
qed

lemma ping_example: "formatPing (lit (423 / 10000)) = ascii ''42.3 ms''"
proof -
  have "pow2 10 \<le> pow2 1023" by simp
  then have big: "1 < pow2 1023" by (simp add: pow2_def)
  have a: "pow2 (- 1022) \<le> 423 / 10000" using p1022 by linarith
  have b: "(423 / 10000 :: rat) < pow2 1023" using big by linarith
  from lit_normal [OF a b] obtain d where
    d: "lit (423 / 10000) = Fin d" "\<bar>d - 423 / 10000\<bar> \<le> (423 / 10000) / 2 ^ 53" "0 < d"
    by blast
  have "(423 / 10000 :: rat) / 2 ^ 53 \<le> 1 / 1000000" by simp
  with d(2) have lo: "423 / 10000 - 1 / 1000000 \<le> d" and hi: "d \<le> 423 / 10000 + 1 / 1000000"
    by linarith+
  have fin: "is_finite (Fin d)" "0 \<le> mathval (Fin d)" "mathval (Fin d) \<le> 5"
    using d(3) hi by simp_all
  note P = ping_product [OF fin]
  have "pow2 (- 41) \<le> pow2 (- 10)" by simp
  then have p41: "pow2 (- 41) \<le> 1 / 1024" by (simp add: pow2_def)
  define x where "x = mathval (js_mul (Fin d) (Fin 1000))"
  have "\<bar>x - d * 1000\<bar> \<le> pow2 (- 41)" using P by (simp add: x_def)
  with p41 lo hi have "423 \<le> x * 10 + 1 / 2" "x * 10 + 1 / 2 < 424" by linarith+
  then have "\<lfloor>x * 10 + 1 / 2\<rfloor> = 423" by (simp add: floor_unique)
  then have "nat \<lfloor>x * 10 + 1 / 2\<rfloor> = 423" by simp
  then show ?thesis
    using ping_format [OF fin] by (simp add: d(1) x_def digits_42 digits_3 ascii_def)
qed



lemma lit_nat: "n < 2 ^ 53 \<Longrightarrow> lit (of_nat n) = Fin (of_nat n)"
  by (simp add: lit_def fl_mag_of_nat with_sign_def)

lemma digits_2000: "digits 2000 = ascii ''2000''"
  by (simp add: digits.simps [of 2000] digits.simps [of 200] digits.simps [of 20] digits_small
      digit_char_def ascii_def)

lemma digits_0: "digits 0 = ascii ''0''"
  by (simp add: digits_small digit_char_def ascii_def)

text \<open>
  C7.  A round-trip time \<open>r\<close> with \<open>0 \<le> r \<le> 5\<close> is shown as the product \<open>r * 1000\<close>, which
  is a binary64 value within \<open>2\<^sup>-\<^sup>4\<^sup>1\<close> of the exact product, rounded to the nearest tenth
  and written as one or more digits, a point and exactly one digit, followed by \<open>ms\<close>; a
  time above 5 is shown as \<open>> 5 s\<close>.  So \<open>0.0423\<close> gives \<open>42.3 ms\<close> and \<open>7\<close> gives \<open>> 5 s\<close>.  Both variants
  agree.
\<close>

theorem ping_rendering:
  "(is_finite r \<and> 0 \<le> mathval r \<and> mathval r \<le> 5 \<longrightarrow>
      formatPing r =
        digits (nat \<lfloor>mathval (js_mul r (Fin 1000)) * 10 + 1 / 2\<rfloor> div 10) @ ascii ''.''
        @ digits (nat \<lfloor>mathval (js_mul r (Fin 1000)) * 10 + 1 / 2\<rfloor> mod 10) @ ascii '' ms''
      \<and> list_all is_digit (digits (nat \<lfloor>mathval (js_mul r (Fin 1000)) * 10 + 1 / 2\<rfloor> div 10))
      \<and> digits (nat \<lfloor>mathval (js_mul r (Fin 1000)) * 10 + 1 / 2\<rfloor> div 10) \<noteq> []
      \<and> list_all is_digit (digits (nat \<lfloor>mathval (js_mul r (Fin 1000)) * 10 + 1 / 2\<rfloor> mod 10))
      \<and> length (digits (nat \<lfloor>mathval (js_mul r (Fin 1000)) * 10 + 1 / 2\<rfloor> mod 10)) = 1
      \<and> is_finite (js_mul r (Fin 1000))
      \<and> \<bar>mathval (js_mul r (Fin 1000)) - mathval r * 1000\<bar> \<le> pow2 (- 41))
   \<and> (js_lt (Fin 5) r \<longrightarrow> formatPing r = ascii ''> 5 s'')
   \<and> formatPing (lit (423 / 10000)) = ascii ''42.3 ms''
   \<and> formatPing (lit 7) = ascii ''> 5 s''
   \<and> formatPing_rich r = formatPing r"
proof -
  have "lit (of_nat 7) = Fin (of_nat 7)" by (rule lit_nat) simp
  then have seven: "formatPing (lit 7) = ascii ''> 5 s''"
    by (simp add: ping_slow js_lt_def)
  have one: "length (digits (n mod 10)) = 1" for n
    by (simp add: digits_small)
  show ?thesis
    using ping_format [of r] ping_product [of r] ping_slow [of r] ping_example seven
    by (simp add: formatPing_rich_def formatPing_def digits_are_digits digits_nonempty one)
qed

theorem ping_rendering_witness:
  "is_finite (Fin 2) \<and> 0 \<le> mathval (Fin 2) \<and> mathval (Fin 2) \<le> 5
   \<and> formatPing (Fin 2) = ascii ''2000.0 ms''
   \<and> js_lt (Fin 5) (Fin 7) \<and> formatPing (Fin 7) = ascii ''> 5 s''
   \<and> js_lt (Fin 5) PosInf \<and> formatPing PosInf = ascii ''> 5 s''"
proof -
  have "js_mul (Fin (of_int 2)) (Fin (of_int 1000)) = Fin (of_int (2 * 1000))"
    by (rule js_mul_int) simp_all
  then have m: "js_mul (Fin 2) (Fin 1000) = Fin 2000" by simp
  have f: "\<lfloor>(40001::rat) / 2\<rfloor> = 20000" by (rule floor_unique) simp_all
  have d: "(20000::nat) div 10 = 2000" "(20000::nat) mod 10 = 0" by simp_all
  from ping_rendering [of "Fin 2"] ping_rendering [of "Fin 7"] ping_rendering [of PosInf]
  show ?thesis
    by (simp add: m f d digits_2000 digits_0 js_lt_def ascii_def)
qed

section \<open>Throughput\<close>

lemma digits_1000: "digits 1000 = ascii ''1000''"
  by (simp add: digits.simps [of 1000] digits.simps [of 100] digits.simps [of 10] digits_small
      digit_char_def ascii_def)

lemma no_fraction: "strip_zeros (drop (Suc 0) (digits 1000)) = []"
  by (simp add: digits_1000 strip_zeros_def ascii_def digit_char_def)

lemma formatted_decimal_int:
  assumes "k < 2 ^ 53"
  shows "formatted_decimal (of_int k) = of_int k"
proof -
  have "(of_int k :: rat) < of_int (2 ^ 53)" using assms by (simp only: of_int_less_iff)
  then show ?thesis by (simp add: formatted_decimal_def)
qed

lemma toLocaleString_whole:
  assumes "formatted_decimal \<bar>q\<bar> = of_int m" "0 \<le> m"
  shows "toLocaleString loc (Fin q) =
     (if q < 0 then minus_sign loc else []) @ group_digits loc (map (glyph loc) (digits (nat m)))"
proof -
  have "\<lfloor>(of_int m :: rat) * 1000 + 1 / 2\<rfloor> = m * 1000"
    by (rule floor_unique) simp_all
  then have n: "nat \<lfloor>(of_int m :: rat) * 1000 + 1 / 2\<rfloor> = nat m * 1000"
    using assms(2) by (simp add: nat_mult_distrib)
  show ?thesis
    by (simp only: toLocaleString_def Let_def jsnum.case mathval.simps sign_bit.simps assms(1) n)
      (simp add: no_fraction)
qed

lemma toLocaleString_int:
  assumes "\<bar>k\<bar> < 2 ^ 53"
  shows "toLocaleString loc (Fin (of_int k)) =
     (if k < 0 then minus_sign loc else []) @ group_digits loc (map (glyph loc) (digits (nat \<bar>k\<bar>)))"
proof -
  have "formatted_decimal \<bar>of_int k\<bar> = of_int \<bar>k\<bar>"
    using formatted_decimal_int [OF assms] by simp
  from toLocaleString_whole [OF this] show ?thesis by simp
qed

lemma toLocaleString_NegZero:
  "toLocaleString loc NegZero = minus_sign loc @ group_digits loc (map (glyph loc) (digits 0))"
proof -
  have "formatted_decimal 0 = 0" by (simp add: formatted_decimal_def)
  then show ?thesis by (simp add: toLocaleString_def no_fraction Let_def)
qed

lemma throughput_finite:
  assumes "\<bar>\<lfloor>q + 1 / 2\<rfloor>\<bar> < 2 ^ 53"
  shows "renderThroughput loc (Val (Fin q)) =
     (if q < 0 then minus_sign loc else [])
     @ group_digits loc (map (glyph loc) (digits (nat \<bar>\<lfloor>q + 1 / 2\<rfloor>\<bar>))) @ ascii '' tok/s''"
proof (cases "q < 0 \<and> - 1 / 2 \<le> q")
  case True
  then have "\<lfloor>q + 1 / 2\<rfloor> = 0" by (simp add: floor_unique)
  with True show ?thesis
    by (simp add: renderThroughput_def toLocaleString_NegZero)
next
  case False
  then have r: "Math_round (Fin q) = Fin (of_int \<lfloor>q + 1 / 2\<rfloor>)" by auto
  have "\<lfloor>q + 1 / 2\<rfloor> < 0 \<longleftrightarrow> q < 0"
  proof
    assume "\<lfloor>q + 1 / 2\<rfloor> < 0"
    then have "q + 1 / 2 < 0" by (simp add: floor_less_iff)
    then show "q < 0" by simp
  next
    assume "q < 0"
    with False have "q + 1 / 2 < 0" by simp
    then show "\<lfloor>q + 1 / 2\<rfloor> < 0" by (simp add: floor_less_iff)
  qed
  then show ?thesis
    unfolding renderThroughput_def by (simp add: r toLocaleString_int [OF assms] del: Math_round.simps)
qed

text \<open>In \<open>en-US\<close> a digit is its own glyph, and the groups are those of \<open>group3\<close>.\<close>

lemma ascii_digits_nth:
  assumes "i < 10"
  shows "ascii ''0123456789'' ! i = of_nat (48 + i)"
proof -
  from assms have "i = 0 \<or> i = 1 \<or> i = 2 \<or> i = 3 \<or> i = 4 \<or> i = 5 \<or> i = 6 \<or> i = 7 \<or> i = 8 \<or> i = 9"
    by arith
  then show ?thesis by (elim disjE) (simp_all add: ascii_def)
qed

lemma glyph_en_US:
  assumes "is_digit c"
  shows "glyph en_US c = [c]"
proof -
  from assms have "48 \<le> unat c" "unat c \<le> 57"
    by (simp_all add: is_digit_def word_le_nat_alt)
  then have i: "unat c - 48 < 10" "48 + (unat c - 48) = unat c" by simp_all
  have "map (\<lambda>c. [c]) (ascii ''0123456789'') ! (unat c - 48) = [ascii ''0123456789'' ! (unat c - 48)]"
    using i(1) by (intro nth_map) (simp add: ascii_def)
  also have "\<dots> = [c]"
    using ascii_digits_nth [OF i(1)] i(2) by simp
  finally show ?thesis by (simp add: glyph_def en_US_def)
qed

lemma glyphs_en_US: "list_all is_digit ds \<Longrightarrow> map (glyph en_US) ds = map (\<lambda>c. [c]) ds"
  by (induction ds) (simp_all add: glyph_en_US)

lemma concat_singletons: "concat (map (\<lambda>c. [c]) ds) = ds"
  by (induction ds) simp_all

lemma group_from_3: "group_from 3 3 (ascii '','') (map (\<lambda>c. [c]) ds) = group3 ds"
proof (induction ds rule: group3.induct)
  case (1 ds)
  show ?case
  proof (cases "length ds \<le> 3")
    case True
    then show ?thesis
      by (subst group_from.simps, subst group3.simps) (simp add: concat_singletons)
  next
    case False
    from 1 [OF False] show ?thesis
      using False
      by (subst group_from.simps, subst group3.simps)
        (simp add: concat_singletons take_map drop_map)
  qed
qed

lemma group_en_US: "group_digits en_US (map (\<lambda>c. [c]) ds) = group3 ds"
proof (cases "length ds \<le> 3")
  case True
  then have "group3 ds = ds" by (subst group3.simps) simp
  with True show ?thesis by (simp add: group_digits_def en_US_def concat_singletons)
next
  case False
  then show ?thesis by (simp add: group_digits_def en_US_def group_from_3)
qed

lemma throughput_en_US:
  assumes "\<bar>\<lfloor>q + 1 / 2\<rfloor>\<bar> < 2 ^ 53"
  shows "renderThroughput en_US (Val (Fin q)) =
     (if q < 0 then ascii ''-'' else []) @ group3 (digits (nat \<bar>\<lfloor>q + 1 / 2\<rfloor>\<bar>)) @ ascii '' tok/s''"
  unfolding throughput_finite [OF assms]
  by (simp add: glyphs_en_US digits_are_digits group_en_US) (simp add: en_US_def)

lemma digits_1235: "digits 1235 = ascii ''1235''"
  by (simp add: digits.simps [of 1235] digits.simps [of 123] digits.simps [of 12] digits_small
      digit_char_def ascii_def)

lemma group3_1235: "group3 (digits 1235) = ascii ''1,235''"
  by (simp add: digits_1235 ascii_def group3.simps [of "[a, b, c, d]" for a b c d]
      group3.simps [of "[a]" for a])

lemma group3_0: "group3 (digits 0) = ascii ''0''"
  by (simp add: digits_0 ascii_def group3.simps [of "[a]" for a])

lemma group_de_DE_1235: "group_digits de_DE (map (glyph de_DE) (digits 1235)) = ascii ''1.235''"
  by (simp add: digits_1235 ascii_def glyph_def de_DE_def group_digits_def
      group_from.simps [of _ _ _ "[a, b, c, d]" for a b c d] group_from.simps [of _ _ _ "[a]" for a])

lemma lit_12346:
  "\<exists>d. lit (12346 / 10) = Fin d \<and> 0 < d \<and> \<lfloor>d + 1 / 2\<rfloor> = 1235"
proof -
  have "pow2 11 \<le> pow2 1023" by simp
  then have big: "2048 \<le> pow2 1023" by (simp add: pow2_def)
  have a: "pow2 (- 1022) \<le> 12346 / 10" using p1022 by linarith
  have b: "(12346 / 10 :: rat) < pow2 1023" using big by linarith
  from lit_normal [OF a b] obtain d where
    d: "lit (12346 / 10) = Fin d" "\<bar>d - 12346 / 10\<bar> \<le> (12346 / 10) / 2 ^ 53" "0 < d"
    by blast
  have "(12346 / 10 :: rat) / 2 ^ 53 \<le> 1 / 1000000" by simp
  with d(2) have "1235 \<le> d + 1 / 2" "d + 1 / 2 < 1236" by linarith+
  then have "\<lfloor>d + 1 / 2\<rfloor> = 1235" by (simp add: floor_unique)
  with d(1,3) show ?thesis by blast
qed

lemma throughput_example: "renderThroughput en_US (Val (lit (12346 / 10))) = ascii ''1,235 tok/s''"
proof -
  from lit_12346 obtain d where d: "lit (12346 / 10) = Fin d" "0 < d" "\<lfloor>d + 1 / 2\<rfloor> = 1235"
    by blast
  have "\<bar>\<lfloor>d + 1 / 2\<rfloor>\<bar> < 2 ^ 53" by (simp add: d(3))
  from throughput_en_US [OF this] show ?thesis
    unfolding d(1) using d(2) by (simp add: d(3) group3_1235 ascii_def)
qed

lemma throughput_german: "renderThroughput de_DE (Val (lit (12346 / 10))) = ascii ''1.235 tok/s''"
proof -
  from lit_12346 obtain d where d: "lit (12346 / 10) = Fin d" "0 < d" "\<lfloor>d + 1 / 2\<rfloor> = 1235"
    by blast
  have "\<bar>\<lfloor>d + 1 / 2\<rfloor>\<bar> < 2 ^ 53" by (simp add: d(3))
  from throughput_finite [OF this, of de_DE] show ?thesis
    unfolding d(1) using d(2) by (simp add: d(3) group_de_DE_1235 ascii_def)
qed

lemma throughput_minus_zero: "renderThroughput en_US (Val (lit (- 2 / 10))) = ascii ''-0 tok/s''"
proof -
  have a: "pow2 (- 1022) \<le> 2 / 10" using p1022 by linarith
  have "pow2 0 \<le> pow2 1023" by simp
  then have b: "(2 / 10 :: rat) < pow2 1023" by (simp add: pow2_def)
  from fl_mag_normal [OF a b] obtain v where
    v: "fl_mag (2 / 10) = Some v" "\<bar>v - 2 / 10\<bar> \<le> (2 / 10) / 2 ^ 53" "0 < v"
    by blast
  have "(2 / 10 :: rat) / 2 ^ 53 \<le> 1 / 10" by simp
  with v(2) have s: "v \<le> 1 / 2" by linarith
  have l: "lit (- 2 / 10) = Fin (- v)"
    using v(1,3) by (simp add: lit_def with_sign_def)
  have "\<lfloor>- v + 1 / 2\<rfloor> = 0" using s v(3) by (simp add: floor_unique)
  then have "\<bar>\<lfloor>- v + 1 / 2\<rfloor>\<bar> < 2 ^ 53" "\<lfloor>- v + 1 / 2\<rfloor> = 0" by simp_all
  from throughput_en_US [OF this(1)] this(2) show ?thesis
    unfolding l using v(3) by (simp add: group3_0 ascii_def)
qed

text \<open>Rounding within a binade, and the shortest digits of \<open>2\<^sup>5\<^sup>4 + 8\<close>.\<close>

lemma ilog2_eq:
  assumes "pow2 k \<le> q" "q < pow2 (k + 1)"
  shows "ilog2 q = k"
proof -
  have "0 < pow2 k" by simp
  with assms(1) have q: "0 < q" by linarith
  from ilog2_bounds [OF q] assms have "pow2 (ilog2 q) < pow2 (k + 1)" "pow2 k < pow2 (ilog2 q + 1)"
    by linarith+
  then show ?thesis by simp
qed

lemma fl_mag_binade:
  assumes "pow2 k \<le> q" "q < pow2 (k + 1)" "- 1022 \<le> k" "k < 1023"
  shows "fl_mag q = Some (of_int (round_half_even (q / pow2 (k - 52))) * pow2 (k - 52))"
proof -
  have "0 < pow2 k" by simp
  with assms(1) have q: "0 < q" by linarith
  have u: "ulp_exp q = k - 52"
    using ilog2_eq [OF assms(1,2)] assms(3) by (simp add: ulp_exp_def)
  have "pow2 (k + 1) \<le> pow2 1023" using assms(4) by simp
  with assms(2) threshold_above have "\<not> pow2 1024 - pow2 970 \<le> q" by linarith
  then have "fl_mag q \<noteq> None" using fl_mag_overflow_iff [of q] q by simp
  then show ?thesis
    using q by (auto simp: fl_mag_pos u Let_def split: if_splits)
qed

lemma fl_mag_53:
  assumes "9007199254740992 \<le> q" "q < 18014398509481984"
  shows "fl_mag q = Some (of_int (round_half_even (q / 2)) * 2)"
proof -
  have "pow2 53 = 9007199254740992" "pow2 (53 + 1) = 18014398509481984" "pow2 (53 - 52) = 2"
    by (simp_all add: pow2_def)
  with fl_mag_binade [of 53 q] assms show ?thesis by simp
qed

lemma fl_mag_54:
  assumes "18014398509481984 \<le> q" "q < 36028797018963968"
  shows "fl_mag q = Some (of_int (round_half_even (q / 4)) * 4)"
proof -
  have "pow2 54 = 18014398509481984" "pow2 (54 + 1) = 36028797018963968" "pow2 (54 - 52) = 4"
    by (simp_all add: pow2_def)
  with fl_mag_binade [of 54 q] assms show ?thesis by simp
qed

lemma ilog10_big: "ilog10 18014398509481992 = 16"
  by (simp add: ilog10_def digits.simps pow10_def Let_def)

lemma floor_rat_numeral: "\<lfloor>(numeral a :: rat) / numeral b\<rfloor> = numeral a div numeral b"
  using floor_divide_of_int_eq [of "numeral a" "numeral b", where ?'a = rat] by simp

lemma upto17: "[1..17::int] = [1, 2, 3, 4, 5, 6, 7, 8, 9, 10, 11, 12, 13, 14, 15, 16, 17]"
  by (simp add: upto_rec1)

lemma shortest_big: "shortest 18014398509481992 = (1801439850948199, 17)"
  by (simp add: shortest_def ilog10_big Let_def upto17 pow10_def fl_mag_53 fl_mag_54
      round_half_even_def floor_rat_numeral)

lemma formatted_decimal_big: "formatted_decimal 18014398509481992 = 18014398509481990"
  by (simp add: formatted_decimal_def shortest_big digits.simps pow10_def)

lemma digits_big: "digits 18014398509481990 = ascii ''18014398509481990''"
  by (simp add: digits.simps digit_char_def ascii_def)

lemma group3_big: "group3 (ascii ''18014398509481990'') = ascii ''18,014,398,509,481,990''"
  by (simp add: ascii_def group3.simps)

lemma toLocaleString_big:
  "toLocaleString en_US (Fin 18014398509481992) = ascii ''18,014,398,509,481,990''"
proof -
  have "formatted_decimal \<bar>18014398509481992\<bar> = of_int 18014398509481990"
    by (simp add: formatted_decimal_big)
  from toLocaleString_whole [OF this, of en_US]
  have "toLocaleString en_US (Fin 18014398509481992) =
      group_digits en_US (map (glyph en_US) (digits 18014398509481990))"
    by simp
  also have "\<dots> = group3 (digits 18014398509481990)"
    by (simp add: glyphs_en_US digits_are_digits group_en_US)
  finally show ?thesis by (simp only: digits_big group3_big)
qed

lemma lit_big: "lit 18014398509481992 = Fin 18014398509481992"
proof -
  have "fl_mag 18014398509481992 = Some 18014398509481992"
    by (simp add: fl_mag_54 round_half_even_def floor_rat_numeral)
  then show ?thesis by (simp add: lit_def with_sign_def)
qed

lemma throughput_big:
  "renderThroughput en_US (Val (lit 18014398509481992)) = ascii ''18,014,398,509,481,990 tok/s''"
proof -
  have "\<lfloor>(18014398509481992 :: rat) + 1 / 2\<rfloor> = 18014398509481992"
    by (rule floor_unique) simp_all
  then have "Math_round (Fin 18014398509481992) = Fin 18014398509481992" by simp
  then show ?thesis
    by (simp add: renderThroughput_def lit_big toLocaleString_big ascii_def del: Math_round.simps)
qed

lemma comma_no_digit: "\<not> is_digit 0x2C"
  by (simp add: is_digit_def)

lemma group3_digits:
  "list_all is_digit ds \<Longrightarrow> filter is_digit (group3 ds) = ds"
proof (induction ds rule: group3.induct)
  case (1 ds)
  show ?case
  proof (cases "length ds \<le> 3")
    case True
    with 1(2) show ?thesis
      by (subst group3.simps) (simp add: list_all_iff)
  next
    case False
    have parts: "list_all is_digit (take (length ds - 3) ds)" "list_all is_digit (drop (length ds - 3) ds)"
      using 1(2) by (auto simp: list_all_iff dest: in_set_takeD in_set_dropD)
    have "filter is_digit (group3 ds) =
        filter is_digit (group3 (take (length ds - 3) ds)) @ filter is_digit (drop (length ds - 3) ds)"
      using False by (subst group3.simps) (simp add: ascii_def comma_no_digit)
    also have "\<dots> = take (length ds - 3) ds @ drop (length ds - 3) ds"
      using 1(1) [OF False parts(1)] parts(2) by (simp add: list_all_iff)
    finally show ?thesis by simp
  qed
qed

lemma group3_length: "length (group3 ds) = length ds + (length ds - 1) div 3"
proof (induction ds rule: group3.induct)
  case (1 ds)
  define n where "n = length ds"
  show ?case
  proof (cases "n \<le> 3")
    case True
    then have "group3 ds = ds" unfolding n_def by (subst group3.simps) simp
    moreover have "(n - 1) div 3 = 0" using True by simp
    ultimately show ?thesis by (simp add: n_def)
  next
    case False
    then have F: "\<not> length ds \<le> 3" by (simp add: n_def)
    then have g: "group3 ds = group3 (take (n - 3) ds) @ ascii '','' @ drop (n - 3) ds"
      unfolding n_def by (subst group3.simps) simp
    have lt: "length (take (n - 3) ds) = n - 3" by (simp add: n_def)
    have ih: "length (group3 (take (n - 3) ds)) = (n - 3) + (n - 3 - 1) div 3"
      using 1 [OF F] unfolding n_def [symmetric] lt .
    have ld: "length (drop (n - 3) ds) = 3" using False by (simp add: n_def)
    have "length (group3 ds) = ((n - 3) + (n - 3 - 1) div 3) + (1 + 3)"
      unfolding g length_append ih ld by (simp add: ascii_def)
    also have "\<dots> = n + (n - 1) div 3"
    proof -
      define m where "m = n - 4"
      have n: "n = m + 4" using False by (simp add: m_def)
      show ?thesis by (simp add: n)
    qed
    finally show ?thesis by (simp only: n_def)
  qed
qed

text \<open>
  C8.  \<open>renderThroughput\<close> returns an em dash for \<open>undefined\<close>, \<open>null\<close>, not-a-number and the
  infinities.  For a finite number \<open>q\<close> whose nearest integer (the upper one of two) is
  below \<open>2\<^sup>5\<^sup>3\<close> in magnitude it returns that integer as the locale of the host writes it:
  the minus sign of the locale when \<open>q\<close> is negative, also when the integer is zero, and
  the digits in the glyphs and groups of the locale, followed by \<open>tok/s\<close>.  In \<open>en-US\<close> these
  are the decimal digits in groups of three separated by commas (taking the commas out
  gives the digits back, and there is one comma for every three digits after the
  first), so \<open>1234.6\<close> gives \<open>1,235 tok/s\<close>; in \<open>de-DE\<close> it gives \<open>1.235 tok/s\<close>.  Both
  variants agree.
\<close>

theorem throughput_rendering:
  "renderThroughput loc Undefined = [EM_DASH]
   \<and> renderThroughput loc Null = [EM_DASH]
   \<and> renderThroughput loc (Val NaN) = [EM_DASH]
   \<and> renderThroughput loc (Val PosInf) = [EM_DASH]
   \<and> renderThroughput loc (Val NegInf) = [EM_DASH]
   \<and> (\<bar>\<lfloor>q + 1 / 2\<rfloor>\<bar> < 2 ^ 53 \<longrightarrow>
        renderThroughput loc (Val (Fin q)) =
          (if q < 0 then minus_sign loc else [])
          @ group_digits loc (map (glyph loc) (digits (nat \<bar>\<lfloor>q + 1 / 2\<rfloor>\<bar>))) @ ascii '' tok/s''
        \<and> renderThroughput en_US (Val (Fin q)) =
          (if q < 0 then ascii ''-'' else []) @ group3 (digits (nat \<bar>\<lfloor>q + 1 / 2\<rfloor>\<bar>)) @ ascii '' tok/s'')
   \<and> \<bar>of_int \<lfloor>q + 1 / 2\<rfloor> - q\<bar> \<le> 1 / 2
   \<and> filter is_digit (group3 (digits (nat \<bar>\<lfloor>q + 1 / 2\<rfloor>\<bar>))) = digits (nat \<bar>\<lfloor>q + 1 / 2\<rfloor>\<bar>)
   \<and> length (group3 (digits (nat \<bar>\<lfloor>q + 1 / 2\<rfloor>\<bar>))) =
       length (digits (nat \<bar>\<lfloor>q + 1 / 2\<rfloor>\<bar>)) + (length (digits (nat \<bar>\<lfloor>q + 1 / 2\<rfloor>\<bar>)) - 1) div 3
   \<and> renderThroughput loc (Val NegZero) =
       minus_sign loc @ group_digits loc (map (glyph loc) (digits 0)) @ ascii '' tok/s''
   \<and> renderThroughput en_US (Val NegZero) = ascii ''-0 tok/s''
   \<and> renderThroughput en_US (Val (lit (12346 / 10))) = ascii ''1,235 tok/s''
   \<and> renderThroughput de_DE (Val (lit (12346 / 10))) = ascii ''1.235 tok/s''
   \<and> renderThroughput en_US (Val (Fin 0)) = ascii ''0 tok/s''
   \<and> renderThroughput_rich loc tp = renderThroughput loc tp"
proof -
  have near: "\<bar>of_int \<lfloor>q + 1 / 2\<rfloor> - q\<bar> \<le> 1 / 2" by linarith
  have nz: "renderThroughput loc' (Val NegZero) =
       minus_sign loc' @ group_digits loc' (map (glyph loc') (digits 0)) @ ascii '' tok/s''" for loc'
    by (simp add: renderThroughput_def toLocaleString_NegZero)
  have "renderThroughput en_US (Val NegZero) = ascii ''-'' @ group3 (digits 0) @ ascii '' tok/s''"
    unfolding nz by (simp add: glyphs_en_US digits_are_digits group_en_US) (simp add: en_US_def)
  then have nz_en: "renderThroughput en_US (Val NegZero) = ascii ''-0 tok/s''"
    by (simp add: group3_0 ascii_def)
  have "\<bar>\<lfloor>(0 :: rat) + 1 / 2\<rfloor>\<bar> < 2 ^ 53" by simp
  from throughput_en_US [OF this] have z: "renderThroughput en_US (Val (Fin 0)) = ascii ''0 tok/s''"
    by (simp add: group3_0 ascii_def)
  have grouped: "filter is_digit (group3 (digits n)) = digits n" for n
    by (rule group3_digits) (rule digits_are_digits)
  have absent: "renderThroughput loc Undefined = [EM_DASH]" "renderThroughput loc Null = [EM_DASH]"
    "renderThroughput loc (Val NaN) = [EM_DASH]" "renderThroughput loc (Val PosInf) = [EM_DASH]"
    "renderThroughput loc (Val NegInf) = [EM_DASH]"
    by (simp_all add: renderThroughput_def)
  have rich: "renderThroughput_rich loc tp = renderThroughput loc tp"
    by (simp add: renderThroughput_def renderThroughput_rich_def)
  show ?thesis
    using absent throughput_finite [of q loc] throughput_en_US [of q] near nz [of loc] nz_en z
      throughput_example throughput_german rich
      grouped [of "nat \<bar>\<lfloor>q + 1 / 2\<rfloor>\<bar>"] group3_length [of "digits (nat \<bar>\<lfloor>q + 1 / 2\<rfloor>\<bar>)"]
    by blast
qed

theorem throughput_rendering_witness:
  "\<bar>\<lfloor>(- 1234567 / 2 :: rat) + 1 / 2\<rfloor>\<bar> < 2 ^ 53
   \<and> renderThroughput en_US (Val (Fin (- 1234567 / 2))) = ascii ''-617,283 tok/s''
   \<and> renderThroughput de_DE (Val (Fin (- 1234567 / 2))) = ascii ''-617.283 tok/s''"
proof -
  have f: "\<lfloor>(- 1234567 / 2 :: rat) + 1 / 2\<rfloor> = - 617283" by (rule floor_unique) simp_all
  then have h: "\<bar>\<lfloor>(- 1234567 / 2 :: rat) + 1 / 2\<rfloor>\<bar> < 2 ^ 53" by simp
  have d: "digits 617283 = ascii ''617283''"
    by (simp add: digits.simps digit_char_def ascii_def)
  have g: "group3 (ascii ''617283'') = ascii ''617,283''"
    by (simp add: ascii_def group3.simps)
  have g': "group_digits de_DE (map (glyph de_DE) (ascii ''617283'')) = ascii ''617.283''"
    by (simp add: ascii_def glyph_def de_DE_def group_digits_def group_from.simps)
  from throughput_rendering [of de_DE "- 1234567 / 2" Null] h
  have "renderThroughput de_DE (Val (Fin (- 1234567 / 2))) =
          (if (- 1234567 / 2 :: rat) < 0 then minus_sign de_DE else [])
          @ group_digits de_DE (map (glyph de_DE) (digits (nat \<bar>\<lfloor>(- 1234567 / 2 :: rat) + 1 / 2\<rfloor>\<bar>))) @ ascii '' tok/s''"
    and "renderThroughput en_US (Val (Fin (- 1234567 / 2))) =
          (if (- 1234567 / 2 :: rat) < 0 then ascii ''-'' else [])
          @ group3 (digits (nat \<bar>\<lfloor>(- 1234567 / 2 :: rat) + 1 / 2\<rfloor>\<bar>)) @ ascii '' tok/s''"
    by blast+
  then have "renderThroughput de_DE (Val (Fin (- 1234567 / 2))) = ascii ''-617.283 tok/s''"
    and "renderThroughput en_US (Val (Fin (- 1234567 / 2))) = ascii ''-617,283 tok/s''"
    unfolding f by (simp_all add: d g g') (simp_all add: de_DE_def ascii_def)
  with h show ?thesis by blast
qed

text \<open>
  An integer above \<open>2\<^sup>5\<^sup>3\<close> is not printed digit for digit, a negative input that rounds
  to zero is printed with a minus sign, and a host whose locale is \<open>de-DE\<close> separates the
  groups of \<open>1234.6\<close> with a point.
\<close>

theorem throughput_counterexample:
  "lit 18014398509481992 = Fin 18014398509481992
   \<and> renderThroughput en_US (Val (lit 18014398509481992)) = ascii ''18,014,398,509,481,990 tok/s''
   \<and> renderThroughput en_US (Val (lit (- 2 / 10))) = ascii ''-0 tok/s''
   \<and> renderThroughput de_DE (Val (lit (12346 / 10))) = ascii ''1.235 tok/s''
   \<and> renderThroughput de_DE (Val (lit (12346 / 10))) \<noteq> ascii ''1,235 tok/s''"
proof -
  have "ascii ''1.235 tok/s'' \<noteq> ascii ''1,235 tok/s''" by (simp add: ascii_def)
  then show ?thesis
    using lit_big throughput_big throughput_minus_zero throughput_german by simp
qed


section \<open>Timestamps\<close>

lemma times_1000_finite:
  assumes "is_finite n" "\<bar>mathval n\<bar> * 1000 < pow2 1024 - pow2 970"
  shows "is_finite (js_mul n (Fin 1000))"
proof -
  have "fl_mag (\<bar>mathval n\<bar> * 1000) \<noteq> None"
    using fl_mag_overflow_iff [of "\<bar>mathval n\<bar> * 1000"] assms(2) by simp
  then obtain v where "fl_mag (\<bar>mathval n\<bar> * 1000) = Some v" by auto
  then show ?thesis
    using assms(1) by (cases n) (simp_all add: js_mul_def with_sign_def)
qed

lemma times_1000_int:
  assumes "\<bar>k\<bar> * 1000 < 2 ^ 53"
  shows "is_finite (js_mul (Fin (of_int k)) (Fin 1000))
       \<and> mathval (js_mul (Fin (of_int k)) (Fin 1000)) = of_int (k * 1000)"
proof (cases "k = 0")
  case True
  then show ?thesis by (simp add: js_mul_def with_sign_def fl_mag_def)
next
  case False
  have "js_mul (Fin (of_int k)) (Fin (of_int 1000)) = Fin (of_int (k * 1000))"
    using assms False by (intro js_mul_int) (simp_all add: abs_mult)
  then show ?thesis by simp
qed

lemma normalizeTimestamp_not_NaN: "normalizeTimestamp now v \<noteq> NaN"
proof -
  have "is_finite n \<Longrightarrow> js_mul n (Fin 1000) \<noteq> NaN" for n
    by (rule times_1000_not_NaN) auto
  then show ?thesis
    by (cases v) (simp_all add: normalizeTimestamp_def)
qed

lemma Number_1700000000: "StringToNumber (ascii ''1700000000'') = Fin 1700000000"
proof -
  have "fl_mag (of_nat 1700000000) = Some (of_nat 1700000000)"
    by (rule fl_mag_of_nat) simp
  then show ?thesis
    by (simp add: StringToNumber_def trim_def StrWhiteSpaceChar_def NonDecimalIntegerLiteral_def
        startsWith_def StrUnsignedDecimalLiteral_def is_digit_def decimal_value_def with_sign_def
        ascii_def Let_def)
qed

lemma Number_not_a_number: "StringToNumber (ascii ''not-a-number'') = NaN"
  by (simp add: StringToNumber_def trim_def StrWhiteSpaceChar_def NonDecimalIntegerLiteral_def
      startsWith_def StrUnsignedDecimalLiteral_def is_digit_def ascii_def Let_def)

text \<open>
  C3.  \<open>normalizeTimestamp\<close> maps a finite number, and a string whose conversion to a number
  is finite, to that number times 1000 in binary64 arithmetic: the product rounded to the
  nearest representable value, which is the exact product for a whole number of seconds
  whose product is below \<open>2\<^sup>5\<^sup>3\<close>.  So the text \<open>1700000000\<close> gives \<open>1700000000000\<close>.  Of an
  absent value, a value that is no number, a text that is no number, and a number that is
  not finite, it returns the current instant.  The result is never not-a-number, and it is
  finite whenever the magnitude of the exact product is below \<open>2\<^sup>1\<^sup>0\<^sup>2\<^sup>4 - 2\<^sup>9\<^sup>7\<^sup>0\<close>.
\<close>

theorem timestamp_normalized:
  "normalizeTimestamp now (VNum n) = (if is_finite n then js_mul n (Fin 1000) else Fin (of_int now))
   \<and> normalizeTimestamp now (VStr s) =
       (if is_finite (StringToNumber s) then js_mul (StringToNumber s) (Fin 1000) else Fin (of_int now))
   \<and> normalizeTimestamp now VUndefined = Fin (of_int now)
   \<and> normalizeTimestamp now VNull = Fin (of_int now)
   \<and> normalizeTimestamp now (VBool b) = Fin (of_int now)
   \<and> normalizeTimestamp now (VArray xs) = Fin (of_int now)
   \<and> normalizeTimestamp now (VObject props) = Fin (of_int now)
   \<and> normalizeTimestamp now v \<noteq> NaN
   \<and> (is_finite n \<and> \<bar>mathval n\<bar> * 1000 < pow2 1024 - pow2 970 \<longrightarrow>
        is_finite (normalizeTimestamp now (VNum n)))
   \<and> (is_finite (StringToNumber s) \<and> \<bar>mathval (StringToNumber s)\<bar> * 1000 < pow2 1024 - pow2 970 \<longrightarrow>
        is_finite (normalizeTimestamp now (VStr s)))
   \<and> (\<bar>k\<bar> * 1000 < 2 ^ 53 \<longrightarrow>
        is_finite (normalizeTimestamp now (VNum (Fin (of_int k))))
        \<and> mathval (normalizeTimestamp now (VNum (Fin (of_int k)))) = of_int (k * 1000))
   \<and> normalizeTimestamp now (VStr (ascii ''1700000000'')) = Fin 1700000000000
   \<and> normalizeTimestamp now (VStr (ascii ''not-a-number'')) = Fin (of_int now)"
proof -
  have num: "normalizeTimestamp now (VNum m) = (if is_finite m then js_mul m (Fin 1000) else Fin (of_int now))" for m
    by (simp add: normalizeTimestamp_def)
  have str: "normalizeTimestamp now (VStr t) =
       (if is_finite (StringToNumber t) then js_mul (StringToNumber t) (Fin 1000) else Fin (of_int now))" for t
    by (simp add: normalizeTimestamp_def)
  have other: "normalizeTimestamp now VUndefined = Fin (of_int now)"
    "normalizeTimestamp now VNull = Fin (of_int now)"
    "normalizeTimestamp now (VBool b) = Fin (of_int now)"
    "normalizeTimestamp now (VArray xs) = Fin (of_int now)"
    "normalizeTimestamp now (VObject props) = Fin (of_int now)"
    by (simp_all add: normalizeTimestamp_def)
  have "js_mul (Fin (of_int 1700000000)) (Fin (of_int 1000)) = Fin (of_int (1700000000 * 1000))"
    by (rule js_mul_int) simp_all
  then have ex1: "normalizeTimestamp now (VStr (ascii ''1700000000'')) = Fin 1700000000000"
    by (simp add: str Number_1700000000)
  have ex2: "normalizeTimestamp now (VStr (ascii ''not-a-number'')) = Fin (of_int now)"
    by (simp add: str Number_not_a_number)
  show ?thesis
    using num [of n] str [of s] other normalizeTimestamp_not_NaN [of now v]
      times_1000_finite [of n] times_1000_finite [of "StringToNumber s"]
      times_1000_int [of k] num [of "Fin (of_int k)"] ex1 ex2
    by simp
qed

theorem timestamp_normalized_witness:
  "is_finite (Fin 1700000000) \<and> \<bar>mathval (Fin 1700000000)\<bar> * 1000 < pow2 1024 - pow2 970
   \<and> is_finite (normalizeTimestamp 0 (VNum (Fin 1700000000)))
   \<and> is_finite (StringToNumber (ascii ''1700000000''))
   \<and> \<bar>mathval (StringToNumber (ascii ''1700000000''))\<bar> * 1000 < pow2 1024 - pow2 970
   \<and> is_finite (normalizeTimestamp 0 (VStr (ascii ''1700000000'')))
   \<and> \<bar>1700000000 :: int\<bar> * 1000 < 2 ^ 53
   \<and> mathval (normalizeTimestamp 0 (VNum (Fin (of_int 1700000000)))) = of_int (1700000000 * 1000)"
proof -
  have "pow2 41 \<le> pow2 1023" by simp
  then have "(1700000000000 :: rat) < pow2 1023" by (simp add: pow2_def)
  with threshold_above have small: "(1700000000000 :: rat) < pow2 1024 - pow2 970" by linarith
  have h: "is_finite (Fin 1700000000)"
    "\<bar>mathval (Fin 1700000000)\<bar> * 1000 < pow2 1024 - pow2 970"
    "is_finite (StringToNumber (ascii ''1700000000''))"
    "\<bar>mathval (StringToNumber (ascii ''1700000000''))\<bar> * 1000 < pow2 1024 - pow2 970"
    "\<bar>1700000000 :: int\<bar> * 1000 < 2 ^ 53"
    using small by (simp_all add: Number_1700000000)
  from timestamp_normalized [of 0 "Fin 1700000000" "ascii ''1700000000''" True "[]" "[]" VNull 1700000000] h
  show ?thesis
    by blast
qed

text \<open>A finite timestamp whose product overflows: \<open>1e306\<close> gives infinity.\<close>

theorem timestamp_overflow_counterexample:
  "is_finite (lit (10 ^ 306))
   \<and> normalizeTimestamp 0 (VNum (lit (10 ^ 306))) = PosInf
   \<and> \<not> is_finite (normalizeTimestamp 0 (VNum (lit (10 ^ 306))))"
proof -
  have a: "pow2 (- 1022) \<le> 10 ^ 306"
  proof -
    have "pow2 (- 1022) \<le> pow2 0" by simp
    then show ?thesis by (simp add: pow2_def)
  qed
  have b: "(10 :: rat) ^ 306 < pow2 1023" by (simp add: pow2_def)
  from lit_normal [OF a b] obtain d where
    d: "lit (10 ^ 306) = Fin d" "\<bar>d - 10 ^ 306\<bar> \<le> 10 ^ 306 / 2 ^ 53" "0 < d"
    by blast
  have "(10 :: rat) ^ 306 / 2 ^ 53 \<le> 10 ^ 306 / 2" by simp
  with d(2) have "10 ^ 306 / 2 \<le> d" by linarith
  then have "10 ^ 309 / 2 \<le> d * 1000" by simp
  moreover have "pow2 1024 \<le> (10 :: rat) ^ 309 / 2" by (simp add: pow2_def)
  moreover have "0 < pow2 970" by simp
  ultimately have "pow2 1024 - pow2 970 \<le> d * 1000" by linarith
  then have "fl_mag (d * 1000) = None"
    using fl_mag_overflow_iff [of "d * 1000"] d(3) by simp
  then have "js_mul (Fin d) (Fin 1000) = PosInf"
    using d(3) by (simp add: js_mul_def with_sign_def abs_of_pos)
  then show ?thesis
    unfolding d(1) by (simp add: normalizeTimestamp_def)
qed


end
